theory Spec2Isabelle
  imports Complex_Main "HOL-Library.Word"
begin

section \<open>Data model\<close>

text \<open>
  The development embeds three source files of the repository: the tool registry client
  (\<open>getMCPClient\<close>, \<open>callMCPTool\<close>), the chat route (the top level of its module and the
  handler \<open>POST\<close>) and the chat page (\<open>sendMessage\<close>). An \<open>async\<close> function is run from its start to its end, one request
  after the other: requests that overlap at an \<open>await\<close> are not modelled.

  A thrown JavaScript \<open>Error\<close> is a value carrying its \<open>message\<close>; a function that may throw
  returns \<open>error + 'a\<close> with \<open>Inl\<close> for the throw.
\<close>

datatype error = Error (err_message: string)

text \<open>
  A tool-call request of the model: \<open>toolCall.id\<close>, \<open>toolCall.function.name\<close> and
  \<open>toolCall.function.arguments\<close>, the last one a string that still has to be parsed.
\<close>

datatype tool_call = ToolCall (tc_id: string) (fn_name: string) (fn_arguments: string)

text \<open>
  \<open>response.choices[0].message\<close>: the content may be \<open>null\<close>, the \<open>tool_calls\<close> property may
  be absent.
\<close>

record completion_message =
  content :: "string option"
  tool_calls :: "tool_call list option"

datatype role = User | Assistant

text \<open>
  The entries of a message array: what the chat page sends (\<open>{role, content}\<close>), a model
  message pushed as received, and the tool results the handler builds
  (\<open>{role: "tool", tool_call_id, content}\<close>).
\<close>

datatype message =
    ChatMessage role string
  | AssistantMessage completion_message
  | ToolMessage (tool_call_id: string) (tool_content: string)

text \<open>
  JSON values (\<open>'j\<close>) stay abstract. A tool descriptor as \<open>listTools\<close> delivers it, and the
  schema the handler derives from it.
\<close>

record 'j tool =
  name :: string
  description :: string
  inputSchema :: 'j

datatype 'j function_schema =
  FunctionSchema (fs_name: string) (fs_description: string) (fs_parameters: 'j)

datatype 'j tool_schema = ToolSchema (ts_type: string) (ts_function: "'j function_schema")

record 'j chat_request =
  model :: "string option"
  messages :: "message list"
  tools :: "'j tool_schema list"
  tool_choice :: string
  temperature :: rat

datatype 'j tool_result = ToolResult (result_content: 'j)

datatype client = Client nat

type_synonym addr = nat

text \<open>The calls that leave the process, in the order they are made.\<close>

datatype 'j event =
    Connect client string
  | ListTools client
  | CallTool client string 'j
  | ChatCompletion "'j chat_request"

text \<open>
  \<open>process.env\<close>, each value present or not. The registry client reads the first, the
  handler the second; the last two go to the constructor of the OpenAI client when the
  module of the route is loaded, as the options \<open>{apiKey, baseURL}\<close>.
\<close>

record environment =
  MCP_SERVER_URL :: "string option"
  OPENAI_MODEL :: "string option"
  OPENAI_API_KEY :: "string option"
  OPENAI_API_BASE :: "string option"

record openai_options =
  apiKey :: "string option"
  baseURL :: "string option"

text \<open>
  Everything outside the repository: the JSON built-ins, the URL parser, the MCP SDK client,
  the constructor of the OpenAI client and the chat-completion endpoint. The outside world
  has a state \<open>'w\<close> of its own, which every call may read and change, so that the model and
  the tool provider may answer differently each time.
\<close>

record ('w, 'j) externals =
  JSON_parse :: "string \<Rightarrow> error + 'j"
  JSON_stringify :: "'j \<Rightarrow> error + string"
  URL_valid :: "string \<Rightarrow> bool"
  client_connect :: "client \<Rightarrow> string \<Rightarrow> 'w \<Rightarrow> (error + unit) \<times> 'w"
  client_listTools :: "client \<Rightarrow> 'w \<Rightarrow> (error + 'j tool list) \<times> 'w"
  client_callTool :: "client \<Rightarrow> string \<Rightarrow> 'j \<Rightarrow> 'w \<Rightarrow> (error + 'j tool_result) \<times> 'w"
  OpenAI_new :: "openai_options \<Rightarrow> error + unit"
  completions_create :: "'j chat_request \<Rightarrow> 'w \<Rightarrow> (error + completion_message list) \<times> 'w"

text \<open>
  The state of the server process: the two module-level variables \<open>mcpClient\<close> and
  \<open>tools\<close> of the registry client (written \<open>registry_tools\<close>), the store of message arrays
  (an array is known by its address, so that two names for one array share its updates),
  the outside world, and the calls made so far.
\<close>

record ('w, 'j) process =
  env :: environment
  mcpClient :: "client option"
  registry_tools :: "'j tool list"
  next_client :: nat
  heap :: "addr \<Rightarrow> message list"
  next_addr :: addr
  world :: 'w
  trace :: "'j event list"

section \<open>The tool registry client\<close>

text \<open>
  \<open>new URL(process.env.MCP_SERVER_URL!)\<close>: the non-null assertion checks nothing at run
  time. An absent value reaches the constructor as \<open>undefined\<close>, which is no absolute URL.
\<close>

definition URL_new :: "('w, 'j) externals \<Rightarrow> string option \<Rightarrow> error + string" where
  "URL_new X v =
     (case v of
        None \<Rightarrow> Inl (Error ''Invalid URL'')
      | Some u \<Rightarrow> if URL_valid X u then Inr u else Inl (Error ''Invalid URL''))"

definition log_event :: "'j event \<Rightarrow> ('w, 'j) process \<Rightarrow> ('w, 'j) process" where
  "log_event ev s = s\<lparr>trace := trace s @ [ev]\<rparr>"

definition getMCPClient ::
  "('w, 'j) externals \<Rightarrow> ('w, 'j) process \<Rightarrow> (error + client \<times> 'j tool list) \<times> ('w, 'j) process"
where
  "getMCPClient X s =
     (case mcpClient s of
        Some c \<Rightarrow> (Inr (c, registry_tools s), s)
      | None \<Rightarrow>
          (case URL_new X (MCP_SERVER_URL (env s)) of
             Inl e \<Rightarrow> (Inl e, s)
           | Inr url \<Rightarrow>
               let c = Client (next_client s);
                   s1 = s\<lparr>mcpClient := Some c, next_client := Suc (next_client s)\<rparr>;
                   s2 = log_event (Connect c url) s1
               in (case client_connect X c url (world s2) of
                     (Inl e, w3) \<Rightarrow> (Inl e, s2\<lparr>world := w3\<rparr>)
                   | (Inr _, w3) \<Rightarrow>
                       let s3 = log_event (ListTools c) (s2\<lparr>world := w3\<rparr>)
                       in (case client_listTools X c (world s3) of
                             (Inl e, w4) \<Rightarrow> (Inl e, s3\<lparr>world := w4\<rparr>)
                           | (Inr ts, w4) \<Rightarrow>
                               (Inr (c, ts), s3\<lparr>world := w4, registry_tools := ts\<rparr>)))))"

definition callMCPTool ::
  "('w, 'j) externals \<Rightarrow> string \<Rightarrow> 'j \<Rightarrow> ('w, 'j) process
     \<Rightarrow> (error + 'j tool_result) \<times> ('w, 'j) process"
where
  "callMCPTool X nm args s =
     (case getMCPClient X s of
        (Inl e, s1) \<Rightarrow> (Inl e, s1)
      | (Inr (c, _), s1) \<Rightarrow>
          let s2 = log_event (CallTool c nm args) s1
          in (case client_callTool X c nm args (world s2) of
                (r, w3) \<Rightarrow> (r, s2\<lparr>world := w3\<rparr>)))"

section \<open>The chat route handler\<close>

definition push :: "addr \<Rightarrow> message \<Rightarrow> ('w, 'j) process \<Rightarrow> ('w, 'j) process" where
  "push a m s = s\<lparr>heap := (heap s)(a := heap s a @ [m])\<rparr>"

text \<open>\<open>[...messages]\<close>: a new array with the same entries.\<close>

definition spread :: "addr \<Rightarrow> ('w, 'j) process \<Rightarrow> addr \<times> ('w, 'j) process" where
  "spread a s =
     (next_addr s,
      s\<lparr>heap := (heap s)(next_addr s := heap s a), next_addr := Suc (next_addr s)\<rparr>)"

definition toolSchemas_of :: "'j tool list \<Rightarrow> 'j tool_schema list" where
  "toolSchemas_of ts =
     map (\<lambda>t. ToolSchema ''function'' (FunctionSchema (name t) (description t) (inputSchema t))) ts"

text \<open>
  The body of the \<open>for\<close> loop for one tool call. The first component of the result is the
  error that leaves the body, if any: \<open>JSON.parse\<close> stands before the \<open>try\<close>, so its error
  does; whatever the \<open>try\<close> block throws is caught and becomes a tool message.
\<close>

definition tool_call_body ::
  "('w, 'j) externals \<Rightarrow> addr \<Rightarrow> tool_call \<Rightarrow> ('w, 'j) process
     \<Rightarrow> error option \<times> ('w, 'j) process"
where
  "tool_call_body X cur toolCall s =
     (let toolName = fn_name toolCall in
      case JSON_parse X (fn_arguments toolCall) of
        Inl e \<Rightarrow> (Some e, s)
      | Inr toolArgs \<Rightarrow>
          (case callMCPTool X toolName toolArgs s of
             (Inl err, s1) \<Rightarrow>
               (None, push cur (ToolMessage (tc_id toolCall) (''Error: '' @ err_message err)) s1)
           | (Inr result, s1) \<Rightarrow>
               (case JSON_stringify X (result_content result) of
                  Inl err \<Rightarrow>
                    (None,
                     push cur (ToolMessage (tc_id toolCall) (''Error: '' @ err_message err)) s1)
                | Inr txt \<Rightarrow> (None, push cur (ToolMessage (tc_id toolCall) txt) s1))))"

fun for_tool_calls ::
  "('w, 'j) externals \<Rightarrow> addr \<Rightarrow> tool_call list \<Rightarrow> ('w, 'j) process
     \<Rightarrow> error option \<times> ('w, 'j) process"
where
  "for_tool_calls X cur [] s = (None, s)"
| "for_tool_calls X cur (toolCall # rest) s =
     (case tool_call_body X cur toolCall s of
        (Some e, s1) \<Rightarrow> (Some e, s1)
      | (None, s1) \<Rightarrow> for_tool_calls X cur rest s1)"

text \<open>How one pass through the body of \<open>while (true)\<close> ends.\<close>

datatype outcome = Continue | Break string | Throw error

text \<open>\<open>message.content || "No response."\<close>: \<open>null\<close> and the empty string are falsy.\<close>

definition content_or_sentinel :: "completion_message \<Rightarrow> string" where
  "content_or_sentinel m =
     (case content m of
        None \<Rightarrow> ''No response.''
      | Some c \<Rightarrow> if c = [] then ''No response.'' else c)"

definition request_of ::
  "'j tool_schema list \<Rightarrow> addr \<Rightarrow> ('w, 'j) process \<Rightarrow> 'j chat_request"
where
  "request_of toolSchemas cur s =
     \<lparr>model = OPENAI_MODEL (env s), messages = heap s cur, tools = toolSchemas,
      tool_choice = ''auto'', temperature = 7 / 10\<rparr>"

definition loop_body ::
  "('w, 'j) externals \<Rightarrow> 'j tool_schema list \<Rightarrow> addr \<Rightarrow> ('w, 'j) process
     \<Rightarrow> outcome \<times> ('w, 'j) process"
where
  "loop_body X toolSchemas cur s =
     (let req = request_of toolSchemas cur s;
          s1 = log_event (ChatCompletion req) s
      in case completions_create X req (world s1) of
           (Inl e, w2) \<Rightarrow> (Throw e, s1\<lparr>world := w2\<rparr>)
         | (Inr choices, w2) \<Rightarrow>
             (case choices of
                [] \<Rightarrow>
                  (Throw (Error ''Cannot read properties of undefined (reading 'message')''),
                   s1\<lparr>world := w2\<rparr>)
              | msg # _ \<Rightarrow>
                  let s2 = push cur (AssistantMessage msg) (s1\<lparr>world := w2\<rparr>)
                  in (case tool_calls msg of
                        None \<Rightarrow> (Break (content_or_sentinel msg), s2)
                      | Some tcs \<Rightarrow>
                          if length tcs = 0 then (Break (content_or_sentinel msg), s2)
                          else (case for_tool_calls X cur tcs s2 of
                                  (Some e, s3) \<Rightarrow> (Throw e, s3)
                                | (None, s3) \<Rightarrow> (Continue, s3)))))"

text \<open>
  The \<open>while (true)\<close> loop. It has no bound, so it is a partial function: \<open>None\<close> is the
  run that never leaves the loop. A run that leaves it gives the final response or the
  error thrown, and the state of the process then.
\<close>

partial_function (option) tool_calling_loop ::
  "('w, 'j) externals \<Rightarrow> 'j tool_schema list \<Rightarrow> addr \<Rightarrow> ('w, 'j) process
     \<Rightarrow> ((error + string) \<times> ('w, 'j) process) option"
where
  "tool_calling_loop X toolSchemas cur s =
     (case loop_body X toolSchemas cur s of
        (Continue, s1) \<Rightarrow> tool_calling_loop X toolSchemas cur s1
      | (Break finalResponse, s1) \<Rightarrow> Some (Inr finalResponse, s1)
      | (Throw e, s1) \<Rightarrow> Some (Inl e, s1))"

text \<open>
  The handler. \<open>req.json()\<close> has resolved to an object whose \<open>messages\<close> property is the
  array at address \<open>a\<close> (a body without such an array is left out). \<open>Inr c\<close> is the
  response \<open>{content: c}\<close>, \<open>Inl e\<close> the error the handler throws.
\<close>

definition POST ::
  "('w, 'j) externals \<Rightarrow> addr \<Rightarrow> ('w, 'j) process
     \<Rightarrow> ((error + string) \<times> ('w, 'j) process) option"
where
  "POST X a s =
     (case getMCPClient X s of
        (Inl e, s1) \<Rightarrow> Some (Inl e, s1)
      | (Inr (_, ts), s1) \<Rightarrow>
          let toolSchemas = toolSchemas_of ts;
              (currentMessages, s2) = spread a s1
          in tool_calling_loop X toolSchemas currentMessages s2)"



section \<open>The chat page\<close>

text \<open>
  The page looks into its strings (\<open>input.trim()\<close>), so here a string is what it is in
  JavaScript: a sequence of UTF-16 code units. \<open>ascii\<close> gives the code units of a text
  written in ASCII.
\<close>

type_synonym code_unit = "16 word"

type_synonym js_string = "code_unit list"

definition ascii :: "string \<Rightarrow> js_string" where
  "ascii s = map of_char s"

text \<open>The type \<open>Message\<close> of the page: \<open>{role, content}\<close>.\<close>

datatype page_message = Message (msg_role: role) (msg_content: js_string)

text \<open>
  The three state variables of the component, and with them the bodies of the requests
  sent to \<open>/api/chat\<close> so far, which the code does not keep but a statement about
  "exactly one request" needs.
\<close>

record page =
  messages :: "page_message list"
  input :: js_string
  isLoading :: bool
  fetches :: "page_message list list"

text \<open>
  \<open>input.trim()\<close> removes from both ends the code units that are white space or line
  terminators of ECMAScript: TAB, VT, FF, the byte order mark \<open>U+FEFF\<close> and the space
  separators of Unicode (\<open>U+0020\<close>, \<open>U+00A0\<close>, \<open>U+1680\<close>, \<open>U+2000\<close> to \<open>U+200A\<close>,
  \<open>U+202F\<close>, \<open>U+205F\<close>, \<open>U+3000\<close>); LF, CR, \<open>U+2028\<close> and \<open>U+2029\<close>. Each of them is
  one code unit, and no half of a surrogate pair is among them.
\<close>

definition is_space :: "code_unit \<Rightarrow> bool" where
  "is_space c \<longleftrightarrow>
     c \<in> set [0x0009, 0x000A, 0x000B, 0x000C, 0x000D, 0x0020, 0x00A0, 0x1680,
               0x2000, 0x2001, 0x2002, 0x2003, 0x2004, 0x2005, 0x2006, 0x2007, 0x2008,
               0x2009, 0x200A, 0x2028, 0x2029, 0x202F, 0x205F, 0x3000, 0xFEFF]"

definition trim :: "js_string \<Rightarrow> js_string" where
  "trim s = rev (dropWhile is_space (rev (dropWhile is_space s)))"

text \<open>The text shown for a failed request; its first code unit is the cross mark.\<close>

definition error_text :: js_string where
  "error_text = 0x274C # ascii '' Error connecting to backend or MCP server.''"

text \<open>
  How the request ends: \<open>fetch\<close> rejects, \<open>res.json()\<close> rejects (the body of an error
  response is no JSON), or the body is the \<open>{content}\<close> object of the route handler.
\<close>

datatype fetch_outcome = FetchRejected | JsonRejected | Json js_string

text \<open>
  \<open>sendMessage\<close> up to its \<open>await\<close>: the guard, the three state updates and the request.
  The empty string is the one falsy string, so \<open>!input.trim()\<close> holds when nothing is left
  of the input.
\<close>

definition sendMessage :: "page \<Rightarrow> page" where
  "sendMessage st =
     (if trim (input st) = [] \<or> isLoading st then st
      else
        let userMsg = Message User (input st)
        in st\<lparr>messages := messages st @ [userMsg], input := [], isLoading := True,
              fetches := fetches st @ [messages st @ [userMsg]]\<rparr>)"

text \<open>
  \<open>sendMessage\<close> from its \<open>await\<close> on, once the request has ended: the \<open>try\<close> branch or
  the \<open>catch\<close> branch, then \<open>finally\<close>. Both updates of \<open>messages\<close> are functional
  updates, so they act on the state of that moment.
\<close>

definition sendMessage_settled :: "fetch_outcome \<Rightarrow> page \<Rightarrow> page" where
  "sendMessage_settled r st =
     (case r of
        Json c \<Rightarrow> st\<lparr>messages := messages st @ [Message Assistant c]\<rparr>
      | _ \<Rightarrow> st\<lparr>messages := messages st @ [Message Assistant error_text]\<rparr>)
     \<lparr>isLoading := False\<rparr>"

text \<open>
  What the user can do in between: type into the field (\<open>onChange\<close>) and submit again
  (the Enter key or the button).
\<close>

datatype ui_event = Change js_string | Submit

fun ui_step :: "page \<Rightarrow> ui_event \<Rightarrow> page" where
  "ui_step st (Change v) = st\<lparr>input := v\<rparr>"
| "ui_step st Submit = sendMessage st"

section \<open>Observations on a run\<close>

text \<open>The requests sent to the model, read off the calls made.\<close>

fun chat_requests :: "'j event list \<Rightarrow> 'j chat_request list" where
  "chat_requests [] = []"
| "chat_requests (ChatCompletion r # es) = r # chat_requests es"
| "chat_requests (_ # es) = chat_requests es"

text \<open>The tool messages for the requests \<open>tcs\<close> with the contents \<open>cs\<close>, pairwise.\<close>

definition tool_messages :: "tool_call list \<Rightarrow> string list \<Rightarrow> message list" where
  "tool_messages tcs cs = map (\<lambda>(tc, c). ToolMessage (tc_id tc) c) (zip tcs cs)"

text \<open>
  The state after \<open>n\<close> passes through the loop body that all ended at the bottom of the
  body, so that the loop goes on; \<open>None\<close> when one of them left the loop.
\<close>

fun after_rounds ::
  "nat \<Rightarrow> ('w, 'j) externals \<Rightarrow> 'j tool_schema list \<Rightarrow> addr \<Rightarrow> ('w, 'j) process
     \<Rightarrow> ('w, 'j) process option"
where
  "after_rounds 0 X toolSchemas cur s = Some s"
| "after_rounds (Suc n) X toolSchemas cur s =
     (case loop_body X toolSchemas cur s of
        (Continue, s1) \<Rightarrow> after_rounds n X toolSchemas cur s1
      | (Break _, _) \<Rightarrow> None
      | (Throw _, _) \<Rightarrow> None)"

text \<open>
  What a pass through the loop body, and so a whole run of the loop on the array at \<open>cur\<close>,
  leaves as it is: the environment, every other array, a registry that is set; and what it
  adds: requests to the model, each with the model identifier of the environment.
\<close>

definition keeps :: "addr \<Rightarrow> ('w, 'j) process \<Rightarrow> ('w, 'j) process \<Rightarrow> bool" where
  "keeps cur s s1 \<longleftrightarrow>
     env s1 = env s \<and> next_addr s1 = next_addr s
     \<and> (\<forall>b. b \<noteq> cur \<longrightarrow> heap s1 b = heap s b)
     \<and> (\<forall>c. mcpClient s = Some c \<longrightarrow>
            mcpClient s1 = Some c \<and> registry_tools s1 = registry_tools s)
     \<and> (\<exists>reqs. chat_requests (trace s1) = chat_requests (trace s) @ reqs
            \<and> (\<forall>q\<in>set reqs. model q = OPENAI_MODEL (env s)))"

text \<open>
  Two states of the process, with an array each, offer a request the same inputs when they
  differ at most in the other arrays of the store, in the next free address and in the record
  of the calls made.
\<close>

definition same_inputs ::
  "addr \<Rightarrow> ('w, 'j) process \<Rightarrow> addr \<Rightarrow> ('w, 'j) process \<Rightarrow> bool"
where
  "same_inputs a s b t \<longleftrightarrow>
     env s = env t \<and> mcpClient s = mcpClient t \<and> registry_tools s = registry_tools t
     \<and> next_client s = next_client t \<and> world s = world t \<and> heap s a = heap t b"

text \<open>
  Two runs that started with the traces \<open>p\<close> and \<open>q\<close> have been offered the same inputs
  and have made the same calls since.
\<close>

definition same_so_far ::
  "'j event list \<Rightarrow> 'j event list \<Rightarrow> addr \<Rightarrow> ('w, 'j) process \<Rightarrow> addr \<Rightarrow> ('w, 'j) process
     \<Rightarrow> bool"
where
  "same_so_far p q a s b t \<longleftrightarrow>
     same_inputs a s b t \<and> (\<exists>evs. trace s = p @ evs \<and> trace t = q @ evs)"


section \<open>A run to try the statements on\<close>

text \<open>
  One concrete outside world, after the end-to-end scenario of the specification: the user
  asks for the services, the model first requests two tools, of which the provider knows
  one, and then gives its answer. JSON values are kept as their text, and the parser of
  this world knows the empty object only. The constructor of the OpenAI client refuses a
  missing API key and accepts a missing base URL, for which it has a default. The state of
  the world counts the completions delivered.
\<close>

definition demo_env :: environment where
  "demo_env =
     \<lparr>MCP_SERVER_URL = Some ''http://localhost:8000/mcp'', OPENAI_MODEL = Some ''gpt-4o'',
      OPENAI_API_KEY = Some ''sk-test'', OPENAI_API_BASE = Some ''http://localhost:1234/v1''\<rparr>"

definition demo_tools :: "string tool list" where
  "demo_tools =
     [\<lparr>name = ''list_services'', description = ''List the services'', inputSchema = ''{}''\<rparr>]"

definition first_completion :: completion_message where
  "first_completion =
     \<lparr>content = None,
      tool_calls = Some [ToolCall ''call_1'' ''list_services'' ''{}'',
                         ToolCall ''call_2'' ''get_incident'' ''{}'']\<rparr>"

definition second_completion :: completion_message where
  "second_completion = \<lparr>content = Some ''You have 1 service: S1.'', tool_calls = None\<rparr>"

definition demo_X :: "(nat, string) externals" where
  "demo_X =
     \<lparr>JSON_parse = (\<lambda>s. if s = ''{}'' then Inr ''{}''
                         else Inl (Error ''Unexpected end of JSON input'')),
      JSON_stringify = (\<lambda>j. Inr j),
      URL_valid = (\<lambda>u. take 7 u = ''http://''),
      client_connect = (\<lambda>c u w. (Inr (), w)),
      client_listTools = (\<lambda>c w. (Inr demo_tools, w)),
      client_callTool = (\<lambda>c nm args w.
         (if nm = ''list_services'' then Inr (ToolResult ''[S1]'')
          else Inl (Error ''Unknown tool''), w)),
      OpenAI_new = (\<lambda>opts.
         case apiKey opts of
           None \<Rightarrow> Inl (Error ''The OPENAI_API_KEY environment variable is missing or empty'')
         | Some k \<Rightarrow> Inr ()),
      completions_create = (\<lambda>req w.
         (Inr [if w = 0 then first_completion else second_completion], Suc w))\<rparr>"

text \<open>
  The process before its first request, with the history of the request in the array at
  address \<open>0\<close>; and the process at the start of the loop of that request, with the copy
  of the history at address \<open>1\<close>.
\<close>

definition demo_s0 :: "(nat, string) process" where
  "demo_s0 =
     \<lparr>env = demo_env, mcpClient = None, registry_tools = [], next_client = 0,
      heap = (\<lambda>_. [])(0 := [ChatMessage User ''list my services'']), next_addr = 1,
      world = 0, trace = []\<rparr>"

definition demo_s1 :: "(nat, string) process" where
  "demo_s1 =
     \<lparr>env = demo_env, mcpClient = Some (Client 0), registry_tools = demo_tools,
      next_client = 1,
      heap = (\<lambda>_. [])(0 := [ChatMessage User ''list my services''],
                        1 := [ChatMessage User ''list my services'']),
      next_addr = 2, world = 0,
      trace = [Connect (Client 0) ''http://localhost:8000/mcp'', ListTools (Client 0)]\<rparr>"

text \<open>
  The state at the end of the request, and that state with the outside world and the
  registry put back to the start.
\<close>

definition demo_final :: "(nat, string) process" where
  "demo_final =
     snd (loop_body demo_X (toolSchemas_of demo_tools) 1
            (snd (loop_body demo_X (toolSchemas_of demo_tools) 1 demo_s1)))"

definition demo_again :: "(nat, string) process" where
  "demo_again = demo_final\<lparr>mcpClient := None, registry_tools := [], next_client := 0, world := 0\<rparr>"





text \<open>
  A tool provider that cannot be reached at the first attempt and can from then on, and
  the process after the first attempt.
\<close>

definition unreachable_once_X :: "(nat, string) externals" where
  "unreachable_once_X =
     demo_X\<lparr>client_connect :=
       (\<lambda>c u w. (if w = 0 then Inl (Error ''fetch failed'') else Inr (), Suc w))\<rparr>"

definition demo_poisoned :: "(nat, string) process" where
  "demo_poisoned =
     demo_s0\<lparr>mcpClient := Some (Client 0), next_client := 1, world := 1,
       trace := [Connect (Client 0) ''http://localhost:8000/mcp'']\<rparr>"

text \<open>
  Four other models: one whose second tool call carries arguments that are no JSON; one
  that before such a call requests a tool the provider does not know; one whose backend
  fails from the second request on; and one that asks for tools each time. For the first
  three, the state in which the loop ends.
\<close>

definition bad_completion :: completion_message where
  "bad_completion =
     \<lparr>content = None,
      tool_calls = Some [ToolCall ''call_1'' ''list_services'' ''{}'',
                         ToolCall ''call_2'' ''list_services'' ''{limit:'']\<rparr>"

definition demo_bad_X :: "(nat, string) externals" where
  "demo_bad_X = demo_X\<lparr>completions_create := (\<lambda>req w. (Inr [bad_completion], Suc w))\<rparr>"

definition raising_then_bad_completion :: completion_message where
  "raising_then_bad_completion =
     \<lparr>content = None,
      tool_calls = Some [ToolCall ''call_1'' ''get_incident'' ''{}'',
                         ToolCall ''call_2'' ''list_services'' ''{limit:'']\<rparr>"

definition demo_raise_bad_X :: "(nat, string) externals" where
  "demo_raise_bad_X =
     demo_X\<lparr>completions_create := (\<lambda>req w. (Inr [raising_then_bad_completion], Suc w))\<rparr>"


definition demo_bad_final :: "(nat, string) process" where
  "demo_bad_final = snd (loop_body demo_bad_X (toolSchemas_of demo_tools) 1 demo_s1)"

definition demo_raise_bad_final :: "(nat, string) process" where
  "demo_raise_bad_final =
     snd (loop_body demo_raise_bad_X (toolSchemas_of demo_tools) 1 demo_s1)"



text \<open>
  The chat page with white space typed (a space, a no-break space and a tab), and with a
  message typed.
\<close>

definition blank_page :: page where
  "blank_page = \<lparr>messages = [], input = [0x0020, 0x00A0, 0x0009], isLoading = False, fetches = []\<rparr>"

definition hello_page :: page where
  "hello_page = \<lparr>messages = [], input = ascii ''hello'', isLoading = False, fetches = []\<rparr>"

section \<open>Basic facts\<close>

lemma chat_requests_append [simp]:
  "chat_requests (xs @ ys) = chat_requests xs @ chat_requests ys"
  by (induction xs rule: chat_requests.induct) simp_all

lemma log_event_fields [simp]:
  "env (log_event ev s) = env s"
  "mcpClient (log_event ev s) = mcpClient s"
  "registry_tools (log_event ev s) = registry_tools s"
  "next_client (log_event ev s) = next_client s"
  "heap (log_event ev s) = heap s"
  "next_addr (log_event ev s) = next_addr s"
  "world (log_event ev s) = world s"
  "trace (log_event ev s) = trace s @ [ev]"
  by (simp_all add: log_event_def)

lemma push_fields [simp]:
  "env (push a m s) = env s"
  "mcpClient (push a m s) = mcpClient s"
  "registry_tools (push a m s) = registry_tools s"
  "next_client (push a m s) = next_client s"
  "heap (push a m s) = (heap s)(a := heap s a @ [m])"
  "next_addr (push a m s) = next_addr s"
  "world (push a m s) = world s"
  "trace (push a m s) = trace s"
  by (simp_all add: push_def)

lemma spread_fields [simp]:
  "fst (spread a s) = next_addr s"
  "env (snd (spread a s)) = env s"
  "mcpClient (snd (spread a s)) = mcpClient s"
  "registry_tools (snd (spread a s)) = registry_tools s"
  "next_client (snd (spread a s)) = next_client s"
  "heap (snd (spread a s)) = (heap s)(next_addr s := heap s a)"
  "next_addr (snd (spread a s)) = Suc (next_addr s)"
  "world (snd (spread a s)) = world s"
  "trace (snd (spread a s)) = trace s"
  by (simp_all add: spread_def)

lemma tool_messages_Nil [simp]: "tool_messages tcs [] = []" "tool_messages [] cs = []"
  by (simp_all add: tool_messages_def)

lemma tool_messages_Cons [simp]:
  "tool_messages (tc # tcs) (c # cs) = ToolMessage (tc_id tc) c # tool_messages tcs cs"
  by (simp add: tool_messages_def)

lemma tool_messages_ids:
  "length cs = length tcs \<Longrightarrow>
     length (tool_messages tcs cs) = length tcs
     \<and> map tool_call_id (tool_messages tcs cs) = map tc_id tcs"
  by (induction tcs cs rule: list_induct2') (simp_all add: tool_messages_def)

subsection \<open>The registry client\<close>

lemma getMCPClient_cached:
  "mcpClient s = Some c \<Longrightarrow> getMCPClient X s = (Inr (c, registry_tools s), s)"
  by (simp add: getMCPClient_def)

lemma getMCPClient_Inr:
  assumes "getMCPClient X s = (Inr (c, ts), s1)"
  shows "mcpClient s1 = Some c \<and> registry_tools s1 = ts"
  using assms
  by (auto simp: getMCPClient_def Let_def split: option.splits sum.splits prod.splits)

lemma getMCPClient_frame:
  assumes "getMCPClient X s = (r, s1)"
  shows "env s1 = env s \<and> heap s1 = heap s \<and> next_addr s1 = next_addr s
         \<and> chat_requests (trace s1) = chat_requests (trace s)"
  using assms
  by (auto simp: getMCPClient_def Let_def split: option.splits sum.splits prod.splits)

lemma getMCPClient_registry:
  assumes "getMCPClient X s = (r, s1)" and "mcpClient s = Some c"
  shows "s1 = s"
  using assms by (simp add: getMCPClient_cached)

lemma callMCPTool_frame:
  assumes "callMCPTool X nm args s = (r, s1)"
  shows "env s1 = env s \<and> heap s1 = heap s \<and> next_addr s1 = next_addr s
         \<and> chat_requests (trace s1) = chat_requests (trace s)"
proof (cases "getMCPClient X s")
  case (Pair g s0)
  note fr = getMCPClient_frame [OF Pair]
  show ?thesis
  proof (cases g)
    case (Inl e)
    with Pair assms fr show ?thesis by (simp add: callMCPTool_def)
  next
    case (Inr ct)
    with Pair assms fr show ?thesis
      by (auto simp: callMCPTool_def Let_def split: prod.splits)
  qed
qed

lemma callMCPTool_registry:
  assumes "callMCPTool X nm args s = (r, s1)" and "mcpClient s = Some c"
  shows "mcpClient s1 = Some c \<and> registry_tools s1 = registry_tools s"
  using assms
  by (auto simp: callMCPTool_def getMCPClient_cached Let_def split: prod.splits)

subsection \<open>One tool call, and the tool calls of a message\<close>

lemma tool_call_body_throws:
  assumes "tool_call_body X cur tc s = (Some e, s1)"
  shows "s1 = s \<and> JSON_parse X (fn_arguments tc) = Inl e"
  using assms
  by (auto simp: tool_call_body_def Let_def split: sum.splits prod.splits)

lemma tool_call_body_returns:
  assumes "tool_call_body X cur tc s = (None, s1)"
  shows "\<exists>c. heap s1 = (heap s)(cur := heap s cur @ [ToolMessage (tc_id tc) c])
           \<and> env s1 = env s \<and> next_addr s1 = next_addr s
           \<and> chat_requests (trace s1) = chat_requests (trace s)"
proof (cases "JSON_parse X (fn_arguments tc)")
  case (Inl e)
  with assms show ?thesis by (simp add: tool_call_body_def)
next
  case (Inr args)
  obtain r s0 where call: "callMCPTool X (fn_name tc) args s = (r, s0)"
    by (cases "callMCPTool X (fn_name tc) args s")
  note fr = callMCPTool_frame [OF call]
  from assms Inr call fr show ?thesis
    by (auto simp: tool_call_body_def Let_def split: sum.splits)
qed

lemma tool_call_body_parses:
  assumes "JSON_parse X (fn_arguments tc) = Inr args"
  shows "fst (tool_call_body X cur tc s) = None"
  using assms
  by (auto simp: tool_call_body_def Let_def split: sum.splits prod.splits)

lemma tool_call_body_registry:
  assumes "tool_call_body X cur tc s = (r, s1)" and "mcpClient s = Some c"
  shows "mcpClient s1 = Some c \<and> registry_tools s1 = registry_tools s"
proof (cases "JSON_parse X (fn_arguments tc)")
  case (Inl e)
  with assms show ?thesis by (simp add: tool_call_body_def)
next
  case (Inr args)
  obtain r0 s0 where call: "callMCPTool X (fn_name tc) args s = (r0, s0)"
    by (cases "callMCPTool X (fn_name tc) args s")
  from callMCPTool_registry [OF call assms(2)] assms(1) Inr call show ?thesis
    by (auto simp: tool_call_body_def Let_def split: sum.splits)
qed

lemma for_tool_calls_shape:
  assumes "for_tool_calls X cur tcs s = (r, s1)"
  shows "\<exists>cs. length cs \<le> length tcs
           \<and> heap s1 = (heap s)(cur := heap s cur @ tool_messages tcs cs)
           \<and> (r = None \<longrightarrow> length cs = length tcs)
           \<and> (\<forall>e. r = Some e \<longrightarrow>
                 length cs < length tcs \<and> JSON_parse X (fn_arguments (tcs ! length cs)) = Inl e)
           \<and> env s1 = env s \<and> next_addr s1 = next_addr s
           \<and> chat_requests (trace s1) = chat_requests (trace s)"
  using assms
proof (induction tcs arbitrary: s)
  case Nil
  then show ?case by (intro exI [of _ "[]"]) auto
next
  case (Cons tc tcs)
  obtain r0 s0 where body: "tool_call_body X cur tc s = (r0, s0)"
    by (cases "tool_call_body X cur tc s")
  show ?case
  proof (cases r0)
    case (Some e)
    with body Cons.prems tool_call_body_throws [of X cur tc s e s0]
    show ?thesis by (intro exI [of _ "[]"]) auto
  next
    case None
    with body Cons.prems have rest: "for_tool_calls X cur tcs s0 = (r, s1)" by simp
    from tool_call_body_returns [of X cur tc s s0] body None
    obtain c where c: "heap s0 = (heap s)(cur := heap s cur @ [ToolMessage (tc_id tc) c])
      \<and> env s0 = env s \<and> next_addr s0 = next_addr s
      \<and> chat_requests (trace s0) = chat_requests (trace s)" by blast
    from Cons.IH [OF rest] obtain cs where cs: "length cs \<le> length tcs
      \<and> heap s1 = (heap s0)(cur := heap s0 cur @ tool_messages tcs cs)
      \<and> (r = None \<longrightarrow> length cs = length tcs)
      \<and> (\<forall>e. r = Some e \<longrightarrow>
           length cs < length tcs \<and> JSON_parse X (fn_arguments (tcs ! length cs)) = Inl e)
      \<and> env s1 = env s0 \<and> next_addr s1 = next_addr s0
      \<and> chat_requests (trace s1) = chat_requests (trace s0)" by blast
    show ?thesis
      using c cs by (intro exI [of _ "c # cs"]) auto
  qed
qed

lemma for_tool_calls_throws:
  assumes "for_tool_calls X cur tcs s = (Some e, s1)"
  shows "\<exists>t\<in>set tcs. JSON_parse X (fn_arguments t) = Inl e"
proof -
  from for_tool_calls_shape [OF assms] obtain cs :: "string list" where
    "length cs < length tcs \<and> JSON_parse X (fn_arguments (tcs ! length cs)) = Inl e" by blast
  then show ?thesis using nth_mem by blast
qed

lemma for_tool_calls_all_parse:
  assumes "\<forall>tc\<in>set tcs. \<exists>args. JSON_parse X (fn_arguments tc) = Inr args"
  shows "fst (for_tool_calls X cur tcs s) = None"
  using assms
proof (induction tcs arbitrary: s)
  case Nil
  then show ?case by simp
next
  case (Cons tc tcs)
  then obtain args where "JSON_parse X (fn_arguments tc) = Inr args" by auto
  from tool_call_body_parses [OF this, of cur s]
  obtain s0 where "tool_call_body X cur tc s = (None, s0)"
    by (cases "tool_call_body X cur tc s") auto
  with Cons show ?case by simp
qed

lemma for_tool_calls_append:
  "for_tool_calls X cur (xs @ ys) s =
     (case for_tool_calls X cur xs s of
        (Some e, s1) \<Rightarrow> (Some e, s1)
      | (None, s1) \<Rightarrow> for_tool_calls X cur ys s1)"
  by (induction xs arbitrary: s) (auto split: prod.splits option.splits)

lemma for_tool_calls_registry:
  assumes "for_tool_calls X cur tcs s = (r, s1)" and "mcpClient s = Some c"
  shows "mcpClient s1 = Some c \<and> registry_tools s1 = registry_tools s"
  using assms
proof (induction tcs arbitrary: s)
  case Nil
  then show ?case by simp
next
  case (Cons tc tcs)
  obtain r0 s0 where body: "tool_call_body X cur tc s = (r0, s0)"
    by (cases "tool_call_body X cur tc s")
  note reg = tool_call_body_registry [OF body Cons.prems(2)]
  show ?case
  proof (cases r0)
    case None
    with body Cons.prems(1) have "for_tool_calls X cur tcs s0 = (r, s1)" by simp
    from Cons.IH [OF this] reg show ?thesis by simp
  next
    case (Some e)
    with body Cons.prems(1) reg show ?thesis by simp
  qed
qed

subsection \<open>One pass through the loop body\<close>

lemma loop_body_final:
  assumes "completions_create X (request_of tss cur s) (world s) = (Inr (msg # others), w)"
    and "tool_calls msg = None \<or> tool_calls msg = Some []"
  shows "loop_body X tss cur s =
           (Break (content_or_sentinel msg),
            push cur (AssistantMessage msg)
              ((log_event (ChatCompletion (request_of tss cur s)) s)\<lparr>world := w\<rparr>))"
  using assms by (auto simp: loop_body_def Let_def)

lemma loop_body_tools:
  assumes "completions_create X (request_of tss cur s) (world s) = (Inr (msg # others), w)"
    and "tool_calls msg = Some tcs" and "tcs \<noteq> []"
  shows "loop_body X tss cur s =
           (case for_tool_calls X cur tcs
                   (push cur (AssistantMessage msg)
                      ((log_event (ChatCompletion (request_of tss cur s)) s)\<lparr>world := w\<rparr>)) of
              (Some e, s3) \<Rightarrow> (Throw e, s3)
            | (None, s3) \<Rightarrow> (Continue, s3))"
  using assms by (auto simp: loop_body_def Let_def)



lemma loop_body_frame:
  assumes "loop_body X tss cur s = (out, s1)"
  shows "env s1 = env s \<and> next_addr s1 = next_addr s
         \<and> (\<forall>b. b \<noteq> cur \<longrightarrow> heap s1 b = heap s b)
         \<and> chat_requests (trace s1) = chat_requests (trace s) @ [request_of tss cur s]"
proof -
  let ?s0 = "log_event (ChatCompletion (request_of tss cur s)) s"
  obtain r w where cc: "completions_create X (request_of tss cur s) (world s) = (r, w)"
    by (cases "completions_create X (request_of tss cur s) (world s)")
  show ?thesis
  proof (cases r)
    case (Inl e)
    with cc assms show ?thesis by (auto simp: loop_body_def Let_def)
  next
    case (Inr choices)
    show ?thesis
    proof (cases choices)
      case Nil
      with Inr cc assms show ?thesis by (auto simp: loop_body_def Let_def)
    next
      case (Cons msg others)
      let ?s2 = "push cur (AssistantMessage msg) (?s0\<lparr>world := w\<rparr>)"
      show ?thesis
      proof (cases "tool_calls msg = None \<or> tool_calls msg = Some []")
        case True
        from loop_body_final [OF cc [unfolded Inr Cons] True] assms show ?thesis by auto
      next
        case False
        then obtain tcs where tcs: "tool_calls msg = Some tcs" "tcs \<noteq> []" by auto
        obtain r3 s3 where f: "for_tool_calls X cur tcs ?s2 = (r3, s3)"
          by (cases "for_tool_calls X cur tcs ?s2")
        from for_tool_calls_shape [OF f] obtain cs where
          "heap s3 = (heap ?s2)(cur := heap ?s2 cur @ tool_messages tcs cs)
           \<and> env s3 = env ?s2 \<and> next_addr s3 = next_addr ?s2
           \<and> chat_requests (trace s3) = chat_requests (trace ?s2)" by blast
        moreover from loop_body_tools [OF cc [unfolded Inr Cons] tcs] f assms
        have "s1 = s3" by (auto split: option.splits)
        ultimately show ?thesis by auto
      qed
    qed
  qed
qed

lemma loop_body_registry:
  assumes "loop_body X tss cur s = (out, s1)" and "mcpClient s = Some c"
  shows "mcpClient s1 = Some c \<and> registry_tools s1 = registry_tools s"
proof -
  let ?s0 = "log_event (ChatCompletion (request_of tss cur s)) s"
  obtain r w where cc: "completions_create X (request_of tss cur s) (world s) = (r, w)"
    by (cases "completions_create X (request_of tss cur s) (world s)")
  show ?thesis
  proof (cases r)
    case (Inl e)
    with cc assms show ?thesis by (auto simp: loop_body_def Let_def)
  next
    case (Inr choices)
    show ?thesis
    proof (cases choices)
      case Nil
      with Inr cc assms show ?thesis by (auto simp: loop_body_def Let_def)
    next
      case (Cons msg others)
      let ?s2 = "push cur (AssistantMessage msg) (?s0\<lparr>world := w\<rparr>)"
      show ?thesis
      proof (cases "tool_calls msg = None \<or> tool_calls msg = Some []")
        case True
        from loop_body_final [OF cc [unfolded Inr Cons] True] assms show ?thesis by auto
      next
        case False
        then obtain tcs where tcs: "tool_calls msg = Some tcs" "tcs \<noteq> []" by auto
        obtain r3 s3 where f: "for_tool_calls X cur tcs ?s2 = (r3, s3)"
          by (cases "for_tool_calls X cur tcs ?s2")
        have "mcpClient ?s2 = Some c" using assms(2) by simp
        from for_tool_calls_registry [OF f this]
        have "mcpClient s3 = Some c \<and> registry_tools s3 = registry_tools s" by simp
        moreover from loop_body_tools [OF cc [unfolded Inr Cons] tcs] f assms(1)
        have "s1 = s3" by (auto split: option.splits)
        ultimately show ?thesis by simp
      qed
    qed
  qed
qed

lemma pass_throws_on_invalid_arguments:
  assumes "completions_create X (request_of tss cur s) (world s) = (Inr (msg # others), w)"
    and "tool_calls msg = Some (pre @ tc # rest)"
    and "\<forall>t\<in>set pre. \<exists>args. JSON_parse X (fn_arguments t) = Inr args"
    and "JSON_parse X (fn_arguments tc) = Inl e"
  shows "\<exists>s3 cs. loop_body X tss cur s = (Throw e, s3)
           \<and> length cs = length pre
           \<and> heap s3 cur = heap s cur @ [AssistantMessage msg] @ tool_messages pre cs
           \<and> chat_requests (trace s3) = chat_requests (trace s) @ [request_of tss cur s]"
proof -
  let ?s' = "push cur (AssistantMessage msg)
               ((log_event (ChatCompletion (request_of tss cur s)) s)\<lparr>world := w\<rparr>)"
  obtain r3 s3 where f: "for_tool_calls X cur pre ?s' = (r3, s3)"
    by (cases "for_tool_calls X cur pre ?s'")
  from for_tool_calls_all_parse [OF assms(3), of cur ?s'] f have r3: "r3 = None" by simp
  from for_tool_calls_shape [OF f] r3 obtain cs where
    cs: "heap s3 = (heap ?s')(cur := heap ?s' cur @ tool_messages pre cs)
         \<and> length cs = length pre" by blast
  have "for_tool_calls X cur (pre @ tc # rest) ?s' = (Some e, s3)"
    using f r3 assms(4) by (simp add: for_tool_calls_append tool_call_body_def)
  with loop_body_tools [OF assms(1,2)]
  have body: "loop_body X tss cur s = (Throw e, s3)" by simp
  moreover from cs
  have "heap s3 cur = heap s cur @ [AssistantMessage msg] @ tool_messages pre cs" by simp
  moreover from loop_body_frame [OF body]
  have "chat_requests (trace s3) = chat_requests (trace s) @ [request_of tss cur s]" by simp
  ultimately show ?thesis using cs by blast
qed

lemma keeps_refl: "keeps cur s s"
  by (simp add: keeps_def)

lemma keeps_trans:
  assumes "keeps cur s s1" and "keeps cur s1 s2"
  shows "keeps cur s s2"
proof -
  from assms(1) obtain r1 where r1: "chat_requests (trace s1) = chat_requests (trace s) @ r1"
    "\<forall>q\<in>set r1. model q = OPENAI_MODEL (env s)" unfolding keeps_def by blast
  from assms(2) obtain r2 where r2: "chat_requests (trace s2) = chat_requests (trace s1) @ r2"
    "\<forall>q\<in>set r2. model q = OPENAI_MODEL (env s1)" unfolding keeps_def by blast
  from assms have e: "env s1 = env s" by (simp add: keeps_def)
  have "chat_requests (trace s2) = chat_requests (trace s) @ (r1 @ r2)
        \<and> (\<forall>q\<in>set (r1 @ r2). model q = OPENAI_MODEL (env s))"
    using r1 r2 e by auto
  then have "\<exists>reqs. chat_requests (trace s2) = chat_requests (trace s) @ reqs
        \<and> (\<forall>q\<in>set reqs. model q = OPENAI_MODEL (env s))" by blast
  with assms show ?thesis unfolding keeps_def by auto
qed

lemma loop_body_keeps:
  assumes "loop_body X tss cur s = (out, s1)"
  shows "keeps cur s s1"
proof -
  from loop_body_frame [OF assms]
  have "chat_requests (trace s1) = chat_requests (trace s) @ [request_of tss cur s]
        \<and> (\<forall>q\<in>set [request_of tss cur s]. model q = OPENAI_MODEL (env s))"
    by (simp add: request_of_def)
  then have "\<exists>reqs. chat_requests (trace s1) = chat_requests (trace s) @ reqs
        \<and> (\<forall>q\<in>set reqs. model q = OPENAI_MODEL (env s))" by blast
  with loop_body_frame [OF assms] loop_body_registry [OF assms]
  show ?thesis unfolding keeps_def by blast
qed

subsection \<open>The loop\<close>

text \<open>
  The loop unfolds by one pass. A run that leaves the loop has made some passes that went
  on and one that did not, so what every pass keeps, the run keeps.
\<close>

lemma loop_Continue:
  "loop_body X tss cur s = (Continue, s1) \<Longrightarrow>
     tool_calling_loop X tss cur s = tool_calling_loop X tss cur s1"
  by (subst tool_calling_loop.simps) simp

lemma loop_Break:
  "loop_body X tss cur s = (Break c, s1) \<Longrightarrow>
     tool_calling_loop X tss cur s = Some (Inr c, s1)"
  by (subst tool_calling_loop.simps) simp

lemma loop_Throw:
  "loop_body X tss cur s = (Throw e, s1) \<Longrightarrow>
     tool_calling_loop X tss cur s = Some (Inl e, s1)"
  by (subst tool_calling_loop.simps) simp


text \<open>
  What the \<open>catch\<close> block makes of an error of the invocation. In a pass whose message
  requests the tool calls \<open>pre @ tc # rest\<close>, let the loop over them reach \<open>tc\<close>, and let the
  invocation of that tool raise an error. Then the body of the \<open>for\<close> loop does not throw:
  the history grows by a tool message for \<open>tc\<close> whose content is \<open>Error:\<close>, a space and
  the message of the error, and the loop over the tool calls continues with \<open>rest\<close>. The
  pass then ends as the remaining calls decide: it can only throw the error of
  \<open>JSON.parse\<close> for the arguments of one of them, and when their arguments all parse it
  goes on to the next invocation of the model.
\<close>

lemma tool_error_is_caught:
  assumes "completions_create X (request_of tss cur s0) (world s0) = (Inr (msg # others), w)"
    and "tool_calls msg = Some (pre @ tc # rest)"
    and "for_tool_calls X cur pre
           (push cur (AssistantMessage msg)
              ((log_event (ChatCompletion (request_of tss cur s0)) s0)\<lparr>world := w\<rparr>)) = (None, s)"
    and "JSON_parse X (fn_arguments tc) = Inr args"
    and "callMCPTool X (fn_name tc) args s = (Inl err, s1)"
  shows "tool_call_body X cur tc s
           = (None, push cur (ToolMessage (tc_id tc) (''Error: '' @ err_message err)) s1)
         \<and> heap (push cur (ToolMessage (tc_id tc) (''Error: '' @ err_message err)) s1) cur
             = heap s cur @ [ToolMessage (tc_id tc) (''Error: '' @ err_message err)]
         \<and> loop_body X tss cur s0
             = (case for_tool_calls X cur rest
                       (push cur (ToolMessage (tc_id tc) (''Error: '' @ err_message err)) s1) of
                  (Some e, s2) \<Rightarrow> (Throw e, s2)
                | (None, s2) \<Rightarrow> (Continue, s2))
         \<and> (\<forall>e s2. loop_body X tss cur s0 = (Throw e, s2) \<longrightarrow>
                (\<exists>t\<in>set rest. JSON_parse X (fn_arguments t) = Inl e))
         \<and> ((\<forall>t\<in>set rest. \<exists>a. JSON_parse X (fn_arguments t) = Inr a) \<longrightarrow>
                (\<exists>s2 cs. loop_body X tss cur s0 = (Continue, s2)
                   \<and> tool_calling_loop X tss cur s0 = tool_calling_loop X tss cur s2
                   \<and> length cs = length rest
                   \<and> heap s2 cur =
                       heap s cur @ [ToolMessage (tc_id tc) (''Error: '' @ err_message err)]
                         @ tool_messages rest cs))"
proof -
  let ?s' = "push cur (ToolMessage (tc_id tc) (''Error: '' @ err_message err)) s1"
  obtain r2 s2 where f: "for_tool_calls X cur rest ?s' = (r2, s2)"
    by (cases "for_tool_calls X cur rest ?s'")
  have one: "tool_call_body X cur tc s = (None, ?s')"
    using assms(4,5) by (simp add: tool_call_body_def)
  from callMCPTool_frame [OF assms(5)] have hs: "heap s1 = heap s" by simp
  then have two: "heap ?s' cur = heap s cur @ [ToolMessage (tc_id tc) (''Error: '' @ err_message err)]"
    by simp
  have step: "for_tool_calls X cur (pre @ tc # rest)
                (push cur (AssistantMessage msg)
                   ((log_event (ChatCompletion (request_of tss cur s0)) s0)\<lparr>world := w\<rparr>))
              = for_tool_calls X cur rest ?s'"
    using assms(3) one by (simp add: for_tool_calls_append)
  have three: "loop_body X tss cur s0
             = (case for_tool_calls X cur rest ?s' of
                  (Some e, s2) \<Rightarrow> (Throw e, s2)
                | (None, s2) \<Rightarrow> (Continue, s2))"
    using loop_body_tools [OF assms(1,2)] step by simp
  have four: "\<exists>t\<in>set rest. JSON_parse X (fn_arguments t) = Inl e"
    if "loop_body X tss cur s0 = (Throw e, s2')" for e s2'
  proof -
    from that three f have "r2 = Some e" by (cases r2) auto
    with f for_tool_calls_throws [of X cur rest ?s' e s2] show ?thesis by simp
  qed
  have five: "\<exists>s2 cs. loop_body X tss cur s0 = (Continue, s2)
                   \<and> tool_calling_loop X tss cur s0 = tool_calling_loop X tss cur s2
                   \<and> length cs = length rest
                   \<and> heap s2 cur =
                       heap s cur @ [ToolMessage (tc_id tc) (''Error: '' @ err_message err)]
                         @ tool_messages rest cs"
    if p: "\<forall>t\<in>set rest. \<exists>a. JSON_parse X (fn_arguments t) = Inr a"
  proof -
    from for_tool_calls_all_parse [OF p, of cur ?s'] f have r2: "r2 = None" by simp
    with three f have body: "loop_body X tss cur s0 = (Continue, s2)" by simp
    from for_tool_calls_shape [OF f] r2 obtain cs where
      cs: "heap s2 = (heap ?s')(cur := heap ?s' cur @ tool_messages rest cs)
           \<and> length cs = length rest" by blast
    with hs have "heap s2 cur =
        heap s cur @ [ToolMessage (tc_id tc) (''Error: '' @ err_message err)]
          @ tool_messages rest cs" by simp
    with body loop_Continue [OF body] cs show ?thesis by blast
  qed
  from one two three four five show ?thesis by blast
qed

lemma after_rounds_loop:
  assumes "after_rounds n X tss cur s = Some s1"
  shows "tool_calling_loop X tss cur s = tool_calling_loop X tss cur s1"
  using assms
proof (induction n arbitrary: s)
  case 0
  then show ?case by simp
next
  case (Suc n)
  then show ?case
    by (subst tool_calling_loop.simps) (auto split: prod.splits outcome.splits)
qed

lemma loop_returns_after_rounds:
  assumes "tool_calling_loop X tss cur s = Some y"
  shows "\<exists>n sn out. after_rounds n X tss cur s = Some sn
           \<and> loop_body X tss cur sn = (out, snd y)
           \<and> out \<noteq> Continue
           \<and> (\<forall>c. out = Break c \<longrightarrow> fst y = Inr c)
           \<and> (\<forall>e. out = Throw e \<longrightarrow> fst y = Inl e)"
proof -
  let ?P = "\<lambda>X tss cur s (y :: (error + string) \<times> ('a, 'b) process).
    \<exists>n sn out. after_rounds n X tss cur s = Some sn
      \<and> loop_body X tss cur sn = (out, snd y)
      \<and> out \<noteq> Continue
      \<and> (\<forall>c. out = Break c \<longrightarrow> fst y = Inr c)
      \<and> (\<forall>e. out = Throw e \<longrightarrow> fst y = Inl e)"
  have "?P X tss cur s y"
  proof (rule tool_calling_loop.raw_induct [where P = ?P, OF _ assms])
    fix loop' :: "('a, 'b) externals \<Rightarrow> 'b tool_schema list \<Rightarrow> addr \<Rightarrow> ('a, 'b) process
                    \<Rightarrow> ((error + string) \<times> ('a, 'b) process) option"
    fix X tss cur s y
    assume IH: "\<And>X tss cur s y. loop' X tss cur s = Some y \<Longrightarrow> ?P X tss cur s y"
      and unfolded: "(case loop_body X tss cur s of
                        (Continue, s1) \<Rightarrow> loop' X tss cur s1
                      | (Break finalResponse, s1) \<Rightarrow> Some (Inr finalResponse, s1)
                      | (Throw e, s1) \<Rightarrow> Some (Inl e, s1)) = Some y"
    obtain out s1 where body: "loop_body X tss cur s = (out, s1)"
      by (cases "loop_body X tss cur s")
    show "?P X tss cur s y"
    proof (cases out)
      case Continue
      with body unfolded have "loop' X tss cur s1 = Some y" by simp
      from IH [OF this] obtain n sn out' where
        "after_rounds n X tss cur s1 = Some sn \<and> loop_body X tss cur sn = (out', snd y)
         \<and> out' \<noteq> Continue
         \<and> (\<forall>c. out' = Break c \<longrightarrow> fst y = Inr c)
         \<and> (\<forall>e. out' = Throw e \<longrightarrow> fst y = Inl e)" by blast
      with body Continue show ?thesis
        by (intro exI [of _ "Suc n"] exI [of _ sn] exI [of _ out']) simp
    next
      case (Break c)
      with body unfolded show ?thesis
        by (intro exI [of _ 0] exI [of _ s] exI [of _ out]) auto
    next
      case (Throw e)
      with body unfolded show ?thesis
        by (intro exI [of _ 0] exI [of _ s] exI [of _ out]) auto
    qed
  qed
  then show ?thesis .
qed







lemma after_rounds_keeps:
  assumes "after_rounds n X tss cur s = Some sn"
  shows "keeps cur s sn"
  using assms
proof (induction n arbitrary: s)
  case 0
  then show ?case by (simp add: keeps_refl)
next
  case (Suc n)
  obtain out s1 where body: "loop_body X tss cur s = (out, s1)"
    by (cases "loop_body X tss cur s")
  with Suc.prems have "after_rounds n X tss cur s1 = Some sn"
    by (auto split: outcome.splits)
  from keeps_trans [OF loop_body_keeps [OF body] Suc.IH [OF this]] show ?case .
qed

lemma tool_calling_loop_keeps:
  assumes "tool_calling_loop X tss cur s = Some (r, s1)"
  shows "keeps cur s s1"
proof -
  from loop_returns_after_rounds [OF assms] obtain n sn out where
    "after_rounds n X tss cur s = Some sn" "loop_body X tss cur sn = (out, s1)" by auto
  from keeps_trans [OF after_rounds_keeps [OF this(1)] loop_body_keeps [OF this(2)]]
  show ?thesis .
qed

text \<open>
  A pass in which the model answers with a message holding tool-call requests. The history
  grows by that assistant message first and by tool messages after it, which answer a
  leading part of the requests in their order and carry their ids, and the model is sent
  one request in the pass. If the pass ends at the bottom of the loop body, there is one
  tool message for each request, and the next request to the model carries this history.
  If it does not, an error has left the loop.
\<close>

lemma pass_with_tool_calls:
  assumes "completions_create X (request_of tss cur s) (world s) = (Inr (msg # others), w)"
    and "tool_calls msg = Some tcs" and "tcs \<noteq> []"
    and "loop_body X tss cur s = (out, s1)"
  shows "\<exists>cs. heap s1 cur = heap s cur @ [AssistantMessage msg] @ tool_messages tcs cs
           \<and> length cs \<le> length tcs
           \<and> chat_requests (trace s1) = chat_requests (trace s) @ [request_of tss cur s]
           \<and> (out = Continue \<longrightarrow>
                 length (tool_messages tcs cs) = length tcs
                 \<and> map tool_call_id (tool_messages tcs cs) = map tc_id tcs
                 \<and> tool_calling_loop X tss cur s = tool_calling_loop X tss cur s1
                 \<and> chat_request.messages (request_of tss cur s1)
                     = heap s cur @ [AssistantMessage msg] @ tool_messages tcs cs)
           \<and> (out \<noteq> Continue \<longrightarrow>
                 (\<exists>e. out = Throw e \<and> tool_calling_loop X tss cur s = Some (Inl e, s1)))"
proof -
  let ?s2 = "push cur (AssistantMessage msg)
               ((log_event (ChatCompletion (request_of tss cur s)) s)\<lparr>world := w\<rparr>)"
  obtain r3 s3 where f: "for_tool_calls X cur tcs ?s2 = (r3, s3)"
    by (cases "for_tool_calls X cur tcs ?s2")
  from loop_body_tools [OF assms(1-3)] f assms(4)
  have out: "s1 = s3" "out = (case r3 of None \<Rightarrow> Continue | Some e \<Rightarrow> Throw e)"
    by (auto split: option.splits)
  from for_tool_calls_shape [OF f] obtain cs where cs:
    "length cs \<le> length tcs
     \<and> heap s3 = (heap ?s2)(cur := heap ?s2 cur @ tool_messages tcs cs)
     \<and> (r3 = None \<longrightarrow> length cs = length tcs)" by blast
  have loop: "tool_calling_loop X tss cur s =
                (case out of Continue \<Rightarrow> tool_calling_loop X tss cur s1
                 | Break c \<Rightarrow> Some (Inr c, s1) | Throw e \<Rightarrow> Some (Inl e, s1))"
    by (subst tool_calling_loop.simps) (simp add: assms(4))
  have hp: "heap s1 cur = heap s cur @ [AssistantMessage msg] @ tool_messages tcs cs"
    using cs out(1) by simp
  have tr: "chat_requests (trace s1) = chat_requests (trace s) @ [request_of tss cur s]"
    using loop_body_frame [OF assms(4)] by simp
  show ?thesis
  proof (cases r3)
    case None
    with cs have "length cs = length tcs" by simp
    from tool_messages_ids [OF this] hp tr cs out None loop show ?thesis
      by (intro exI [of _ cs]) (simp add: request_of_def)
  next
    case (Some e)
    with hp tr cs out loop show ?thesis
      by (intro exI [of _ cs]) simp
  qed
qed

subsection \<open>The handler\<close>

lemma POST_connected:
  assumes "getMCPClient X s = (Inr (c, ts), s1)"
  shows "POST X a s =
           tool_calling_loop X (toolSchemas_of ts) (next_addr s1) (snd (spread a s1))"
  using assms by (simp add: POST_def spread_def)

lemma POST_keeps:
  assumes "POST X a s = Some (r, s1)"
  shows "env s1 = env s
         \<and> (\<forall>b<next_addr s. heap s1 b = heap s b)
         \<and> (\<forall>c. mcpClient s = Some c \<longrightarrow>
                mcpClient s1 = Some c \<and> registry_tools s1 = registry_tools s)
         \<and> (\<exists>reqs. chat_requests (trace s1) = chat_requests (trace s) @ reqs
                \<and> (\<forall>q\<in>set reqs. model q = OPENAI_MODEL (env s)))"
proof -
  obtain g s0 where g: "getMCPClient X s = (g, s0)" by (cases "getMCPClient X s")
  note fr = getMCPClient_frame [OF g]
  have reg: "\<And>c. mcpClient s = Some c \<Longrightarrow> s0 = s"
    using getMCPClient_registry [OF g] by simp
  show ?thesis
  proof (cases g)
    case (Inl e)
    with g assms have "s1 = s0" by (simp add: POST_def)
    with fr reg show ?thesis by auto
  next
    case (Inr ct)
    obtain c ts where ct: "ct = (c, ts)" by (cases ct)
    let ?s2 = "snd (spread a s0)"
    from POST_connected [OF g [unfolded Inr ct], of a] assms
    have "tool_calling_loop X (toolSchemas_of ts) (next_addr s0) ?s2 = Some (r, s1)" by simp
    from tool_calling_loop_keeps [OF this]
    have k: "keeps (next_addr s0) ?s2 s1" .
    then obtain reqs where reqs: "chat_requests (trace s1) = chat_requests (trace ?s2) @ reqs"
      "\<forall>q\<in>set reqs. model q = OPENAI_MODEL (env ?s2)" unfolding keeps_def by blast
    have "chat_requests (trace s1) = chat_requests (trace s) @ reqs
          \<and> (\<forall>q\<in>set reqs. model q = OPENAI_MODEL (env s))"
      using reqs fr by simp
    then have "\<exists>reqs. chat_requests (trace s1) = chat_requests (trace s) @ reqs
          \<and> (\<forall>q\<in>set reqs. model q = OPENAI_MODEL (env s))" by blast
    moreover have "env s1 = env s" using k fr by (simp add: keeps_def)
    moreover have "\<forall>b<next_addr s. heap s1 b = heap s b"
      using k fr by (auto simp: keeps_def)
    moreover have "\<forall>c. mcpClient s = Some c \<longrightarrow>
                mcpClient s1 = Some c \<and> registry_tools s1 = registry_tools s"
      using k reg by (auto simp: keeps_def)
    ultimately show ?thesis by blast
  qed
qed

lemma POST_rounds_keep:
  assumes "getMCPClient X s = (Inr (c, ts), s0)"
    and "after_rounds n X (toolSchemas_of ts) (next_addr s0) (snd (spread a s0)) = Some sn"
  shows "(\<forall>b<next_addr s. heap sn b = heap s b)
         \<and> (\<exists>reqs. chat_requests (trace sn) = chat_requests (trace s) @ reqs
                \<and> (\<forall>q\<in>set reqs. model q = OPENAI_MODEL (env s)))"
proof -
  note fr = getMCPClient_frame [OF assms(1)]
  let ?s2 = "snd (spread a s0)"
  from after_rounds_keeps [OF assms(2)] have k: "keeps (next_addr s0) ?s2 sn" .
  then obtain reqs where reqs: "chat_requests (trace sn) = chat_requests (trace ?s2) @ reqs"
    "\<forall>q\<in>set reqs. model q = OPENAI_MODEL (env ?s2)" unfolding keeps_def by blast
  have "chat_requests (trace sn) = chat_requests (trace s) @ reqs
        \<and> (\<forall>q\<in>set reqs. model q = OPENAI_MODEL (env s))"
    using reqs fr by simp
  then have "\<exists>reqs. chat_requests (trace sn) = chat_requests (trace s) @ reqs
        \<and> (\<forall>q\<in>set reqs. model q = OPENAI_MODEL (env s))" by blast
  moreover have "\<forall>b<next_addr s. heap sn b = heap s b"
    using k fr by (auto simp: keeps_def)
  ultimately show ?thesis by blast
qed

subsection \<open>Two runs on the same inputs\<close>

lemma same_inputs_sym: "same_inputs a s b t \<Longrightarrow> same_inputs b t a s"
  by (simp add: same_inputs_def)

lemma same_so_far_sym: "same_so_far p q a s b t \<Longrightarrow> same_so_far q p b t a s"
  by (auto simp: same_so_far_def same_inputs_def)

lemma getMCPClient_same:
  assumes "same_so_far p q a s b t"
  shows "fst (getMCPClient X s) = fst (getMCPClient X t)
         \<and> same_so_far p q a (snd (getMCPClient X s)) b (snd (getMCPClient X t))"
  using assms
  by (auto simp: same_so_far_def same_inputs_def getMCPClient_def Let_def
      split: option.splits sum.splits prod.splits)

lemma callMCPTool_same:
  assumes "same_so_far p q a s b t"
  shows "fst (callMCPTool X nm args s) = fst (callMCPTool X nm args t)
         \<and> same_so_far p q a (snd (callMCPTool X nm args s)) b (snd (callMCPTool X nm args t))"
proof -
  obtain g s0 where gs: "getMCPClient X s = (g, s0)" by (cases "getMCPClient X s")
  obtain g' t0 where gt: "getMCPClient X t = (g', t0)" by (cases "getMCPClient X t")
  from getMCPClient_same [OF assms, of X] gs gt
  have g: "g' = g" and st: "same_so_far p q a s0 b t0" by simp_all
  show ?thesis
  proof (cases g)
    case (Inl e)
    with gs gt g st show ?thesis by (simp add: callMCPTool_def)
  next
    case (Inr ct)
    with gs gt g st show ?thesis
      by (auto simp: callMCPTool_def Let_def same_so_far_def same_inputs_def split: prod.splits)
  qed
qed

lemma push_same:
  assumes "same_so_far p q a s b t"
  shows "same_so_far p q a (push a m s) b (push b m t)"
  using assms by (simp add: same_so_far_def same_inputs_def)

lemma tool_call_body_same:
  assumes "same_so_far p q a s b t"
  shows "fst (tool_call_body X a tc s) = fst (tool_call_body X b tc t)
         \<and> same_so_far p q a (snd (tool_call_body X a tc s)) b (snd (tool_call_body X b tc t))"
proof (cases "JSON_parse X (fn_arguments tc)")
  case (Inl e)
  with assms show ?thesis by (simp add: tool_call_body_def)
next
  case (Inr args)
  obtain r s0 where cs: "callMCPTool X (fn_name tc) args s = (r, s0)"
    by (cases "callMCPTool X (fn_name tc) args s")
  obtain r' t0 where ct: "callMCPTool X (fn_name tc) args t = (r', t0)"
    by (cases "callMCPTool X (fn_name tc) args t")
  from callMCPTool_same [OF assms, of X "fn_name tc" args] cs ct
  have r: "r' = r" and st: "same_so_far p q a s0 b t0" by simp_all
  from Inr cs ct r push_same [OF st] show ?thesis
    by (auto simp: tool_call_body_def Let_def split: sum.splits)
qed

lemma for_tool_calls_same:
  assumes "same_so_far p q a s b t"
  shows "fst (for_tool_calls X a tcs s) = fst (for_tool_calls X b tcs t)
         \<and> same_so_far p q a (snd (for_tool_calls X a tcs s)) b (snd (for_tool_calls X b tcs t))"
  using assms
proof (induction tcs arbitrary: s t)
  case Nil
  then show ?case by simp
next
  case (Cons tc tcs)
  obtain r s0 where bs: "tool_call_body X a tc s = (r, s0)"
    by (cases "tool_call_body X a tc s")
  obtain r' t0 where bt: "tool_call_body X b tc t = (r', t0)"
    by (cases "tool_call_body X b tc t")
  from tool_call_body_same [OF Cons.prems, of X tc] bs bt
  have r: "r' = r" and st: "same_so_far p q a s0 b t0" by simp_all
  show ?case
  proof (cases r)
    case None
    with bs bt r Cons.IH [OF st] show ?thesis by simp
  next
    case (Some e)
    with bs bt r st show ?thesis by simp
  qed
qed

lemma loop_body_same:
  assumes "same_so_far p q a s b t"
  shows "fst (loop_body X tss a s) = fst (loop_body X tss b t)
         \<and> same_so_far p q a (snd (loop_body X tss a s)) b (snd (loop_body X tss b t))"
proof -
  have req: "request_of tss a s = request_of tss b t" and w: "world s = world t"
    using assms by (simp_all add: request_of_def same_so_far_def same_inputs_def)
  let ?req = "request_of tss b t"
  obtain r w1 where cc: "completions_create X ?req (world t) = (r, w1)"
    by (cases "completions_create X ?req (world t)")
  have s0: "\<And>w'. same_so_far p q a ((log_event (ChatCompletion ?req) s)\<lparr>world := w'\<rparr>)
                     b ((log_event (ChatCompletion ?req) t)\<lparr>world := w'\<rparr>)"
    using assms by (auto simp: same_so_far_def same_inputs_def)
  show ?thesis
  proof (cases r)
    case (Inl e)
    with cc req w s0 show ?thesis by (simp add: loop_body_def Let_def)
  next
    case (Inr choices)
    show ?thesis
    proof (cases choices)
      case Nil
      with Inr cc req w s0 show ?thesis by (simp add: loop_body_def Let_def)
    next
      case (Cons msg others)
      let ?s2 = "push a (AssistantMessage msg) ((log_event (ChatCompletion ?req) s)\<lparr>world := w1\<rparr>)"
      let ?t2 = "push b (AssistantMessage msg) ((log_event (ChatCompletion ?req) t)\<lparr>world := w1\<rparr>)"
      have st2: "same_so_far p q a ?s2 b ?t2" by (rule push_same [OF s0])
      show ?thesis
      proof (cases "tool_calls msg")
        case None
        with Inr Cons cc req w st2 show ?thesis by (simp add: loop_body_def Let_def)
      next
        case (Some tcs)
        from for_tool_calls_same [OF st2, of X tcs]
        have "fst (for_tool_calls X a tcs ?s2) = fst (for_tool_calls X b tcs ?t2)
              \<and> same_so_far p q a (snd (for_tool_calls X a tcs ?s2)) b (snd (for_tool_calls X b tcs ?t2))" .
        with Some Inr Cons cc req w st2 show ?thesis
          by (auto simp: loop_body_def Let_def split: prod.splits option.splits)
      qed
    qed
  qed
qed

lemma after_rounds_same:
  assumes "same_so_far p q a s b t" and "after_rounds n X tss a s = Some sn"
  shows "\<exists>tn. after_rounds n X tss b t = Some tn \<and> same_so_far p q a sn b tn"
  using assms
proof (induction n arbitrary: s t)
  case 0
  then show ?case by simp
next
  case (Suc n)
  obtain out s1 where bs: "loop_body X tss a s = (out, s1)" by (cases "loop_body X tss a s")
  obtain out' t1 where bt: "loop_body X tss b t = (out', t1)" by (cases "loop_body X tss b t")
  from loop_body_same [OF Suc.prems(1), of X tss] bs bt
  have o: "out' = out" and st: "same_so_far p q a s1 b t1" by simp_all
  from Suc.prems(2) bs have "out = Continue" "after_rounds n X tss a s1 = Some sn"
    by (auto split: outcome.splits)
  with Suc.IH [OF st this(2)] bt o show ?case by simp
qed

lemma tool_calling_loop_same:
  assumes "same_so_far p q a s b t" and "tool_calling_loop X tss a s = Some (r, s1)"
  shows "\<exists>t1. tool_calling_loop X tss b t = Some (r, t1) \<and> same_so_far p q a s1 b t1"
proof -
  from loop_returns_after_rounds [OF assms(2)] obtain n sn out where
    h: "after_rounds n X tss a s = Some sn" "loop_body X tss a sn = (out, s1)"
       "out \<noteq> Continue" "\<forall>c. out = Break c \<longrightarrow> r = Inr c" "\<forall>e. out = Throw e \<longrightarrow> r = Inl e"
    by auto
  from after_rounds_same [OF assms(1) h(1)] obtain tn where
    tn: "after_rounds n X tss b t = Some tn" "same_so_far p q a sn b tn" by blast
  obtain out' t1 where bt: "loop_body X tss b tn = (out', t1)"
    by (cases "loop_body X tss b tn")
  from loop_body_same [OF tn(2), of X tss] h(2) bt
  have o: "out' = out" and st: "same_so_far p q a s1 b t1" by simp_all
  have "tool_calling_loop X tss b tn = Some (r, t1)"
    using bt o h(3-5) by (subst tool_calling_loop.simps) (cases out; simp)
  with after_rounds_loop [OF tn(1)] st show ?thesis by simp
qed

lemma POST_same:
  assumes "same_inputs a s b t" and "POST X a s = Some (r, s1)"
  shows "\<exists>t1 evs. POST X b t = Some (r, t1) \<and> world t1 = world s1
           \<and> mcpClient t1 = mcpClient s1 \<and> registry_tools t1 = registry_tools s1
           \<and> trace s1 = trace s @ evs \<and> trace t1 = trace t @ evs"
proof -
  let ?p = "trace s" and ?q = "trace t"
  have st0: "same_so_far ?p ?q a s b t" using assms(1) by (simp add: same_so_far_def)
  obtain g s0 where gs: "getMCPClient X s = (g, s0)" by (cases "getMCPClient X s")
  obtain g' t0 where gt: "getMCPClient X t = (g', t0)" by (cases "getMCPClient X t")
  from getMCPClient_same [OF st0, of X] gs gt
  have g: "g' = g" and st: "same_so_far ?p ?q a s0 b t0" by simp_all
  show ?thesis
  proof (cases g)
    case (Inl e)
    with gs gt g st assms(2) show ?thesis
      by (auto simp: POST_def same_so_far_def same_inputs_def)
  next
    case (Inr ct)
    obtain c ts where ct: "ct = (c, ts)" by (cases ct)
    have st2: "same_so_far ?p ?q (next_addr s0) (snd (spread a s0))
                 (next_addr t0) (snd (spread b t0))"
      using st by (simp add: same_so_far_def same_inputs_def)
    from POST_connected [OF gs [unfolded Inr ct], of a] assms(2)
    have "tool_calling_loop X (toolSchemas_of ts) (next_addr s0) (snd (spread a s0)) = Some (r, s1)"
      by simp
    from tool_calling_loop_same [OF st2 this] obtain t1 where
      "tool_calling_loop X (toolSchemas_of ts) (next_addr t0) (snd (spread b t0)) = Some (r, t1)"
      "same_so_far ?p ?q (next_addr s0) s1 (next_addr t0) t1" by blast
    with POST_connected [OF gt [unfolded g Inr ct], of b] show ?thesis
      by (auto simp: same_so_far_def same_inputs_def)
  qed
qed

subsection \<open>Two runs on different configurations\<close>















subsection \<open>The run to try the statements on\<close>

lemma demo_connect: "getMCPClient demo_X demo_s0 =
   (Inr (Client 0, demo_tools),
    demo_s0\<lparr>mcpClient := Some (Client 0), registry_tools := demo_tools, next_client := 1,
      trace := [Connect (Client 0) ''http://localhost:8000/mcp'', ListTools (Client 0)]\<rparr>)"
  by (simp add: getMCPClient_def demo_X_def demo_s0_def demo_env_def URL_new_def Let_def
      log_event_def)

lemma demo_start: "spread 0 (snd (getMCPClient demo_X demo_s0)) = (1, demo_s1)"
  by (simp add: demo_connect) (simp add: spread_def demo_s0_def demo_s1_def)

lemma demo_body:
  "fst (loop_body demo_X (toolSchemas_of demo_tools) 1 demo_s1) = Continue"
  by (simp add: loop_body_def request_of_def demo_X_def demo_s1_def Let_def
      first_completion_def tool_call_body_def callMCPTool_def getMCPClient_def log_event_def push_def)

lemma demo_body_world:
  "world (snd (loop_body demo_X (toolSchemas_of demo_tools) 1 demo_s1)) = 1"
  by (simp add: loop_body_def request_of_def demo_X_def demo_s1_def Let_def
      first_completion_def tool_call_body_def callMCPTool_def getMCPClient_def log_event_def push_def)

lemma demo_body_2:
  "fst (loop_body demo_X (toolSchemas_of demo_tools) 1
          (snd (loop_body demo_X (toolSchemas_of demo_tools) 1 demo_s1)))
     = Break ''You have 1 service: S1.''"
proof -
  let ?s = "snd (loop_body demo_X (toolSchemas_of demo_tools) 1 demo_s1)"
  have "completions_create demo_X (request_of (toolSchemas_of demo_tools) 1 ?s) (world ?s)
          = (Inr (second_completion # []), 2)"
    unfolding demo_body_world by (simp add: demo_X_def)
  from loop_body_final [OF this] show ?thesis
    by (simp add: second_completion_def content_or_sentinel_def)
qed

lemma demo_POST:
  "POST demo_X 0 demo_s0 = Some (Inr ''You have 1 service: S1.'', demo_final)"
proof -
  let ?tss = "toolSchemas_of demo_tools"
  let ?s = "snd (loop_body demo_X ?tss 1 demo_s1)"
  have c: "getMCPClient demo_X demo_s0
             = (Inr (Client 0, demo_tools), snd (getMCPClient demo_X demo_s0))"
    by (simp add: demo_connect)
  have n: "next_addr (snd (getMCPClient demo_X demo_s0)) = 1"
    using getMCPClient_frame [OF c] by (simp add: demo_s0_def)
  have sp: "snd (spread 0 (snd (getMCPClient demo_X demo_s0))) = demo_s1"
    by (simp add: demo_start)
  have "POST demo_X 0 demo_s0 = tool_calling_loop demo_X ?tss 1 demo_s1"
    using POST_connected [OF c, of 0] n sp by simp
  also have "\<dots> = tool_calling_loop demo_X ?tss 1 ?s"
    using demo_body by (intro loop_Continue) (metis prod.collapse)
  also have "\<dots> = Some (Inr ''You have 1 service: S1.'', demo_final)"
    unfolding demo_final_def using demo_body_2 by (intro loop_Break) (metis prod.collapse)
  finally show ?thesis .
qed





subsection \<open>The chat page\<close>

text \<open>Nothing is left of a string exactly when all of it is white space.\<close>

lemma trim_empty_iff: "trim s = [] \<longleftrightarrow> (\<forall>c\<in>set s. is_space c)"
proof -
  let ?d = "dropWhile is_space s"
  have "trim s = [] \<longleftrightarrow> (\<forall>c\<in>set ?d. is_space c)"
    by (simp add: trim_def)
  also have "\<dots> \<longleftrightarrow> ?d = []"
  proof (cases ?d)
    case Nil
    then show ?thesis by (simp del: dropWhile_eq_Nil_conv)
  next
    case (Cons x xs)
    with hd_dropWhile [of is_space s] have "\<not> is_space x" by (simp del: dropWhile_eq_Nil_conv)
    with Cons show ?thesis by (simp del: dropWhile_eq_Nil_conv)
  qed
  also have "\<dots> \<longleftrightarrow> (\<forall>c\<in>set s. is_space c)" by simp
  finally show ?thesis .
qed

lemma while_loading:
  assumes "isLoading st"
  shows "messages (foldl ui_step st evs) = messages st
         \<and> fetches (foldl ui_step st evs) = fetches st
         \<and> isLoading (foldl ui_step st evs)"
  using assms
proof (induction evs arbitrary: st)
  case Nil
  then show ?case by simp
next
  case (Cons ev evs)
  have "isLoading (ui_step st ev) \<and> messages (ui_step st ev) = messages st
        \<and> fetches (ui_step st ev) = fetches st"
    using Cons.prems by (cases ev) (simp_all add: sendMessage_def)
  with Cons.IH [of "ui_step st ev"] show ?case by simp
qed

section \<open>The claims\<close>

text \<open>
  Claim C1, at a failing input. The message of the model requests two tool calls. The first
  is carried out, and its tool message follows the assistant message in the history. The
  arguments of the second are no JSON: \<open>JSON.parse\<close> stands before the \<open>try\<close>, its
  error leaves the handler, and the second request gets no tool message. The history of
  the request ends with the assistant message and one tool message for its two requests.
\<close>

theorem one_result_for_two_requests:
  "map_option length (tool_calls bad_completion) = Some 2
   \<and> POST demo_bad_X 0 demo_s0
       = Some (Inl (Error ''Unexpected end of JSON input''), demo_bad_final)
   \<and> heap demo_bad_final 1
       = [ChatMessage User ''list my services'',
          AssistantMessage bad_completion,
          ToolMessage ''call_1'' ''[S1]'']
   \<and> length (chat_requests (trace demo_bad_final)) = 1"
proof -
  let ?tss = "toolSchemas_of demo_tools"
  let ?S = "snd (loop_body demo_bad_X ?tss 1 demo_s1)"
  have c: "getMCPClient demo_bad_X demo_s0
             = (Inr (Client 0, demo_tools), snd (getMCPClient demo_X demo_s0))"
    by (simp add: getMCPClient_def demo_bad_X_def demo_X_def demo_s0_def demo_env_def
        URL_new_def Let_def)
  have "getMCPClient demo_X demo_s0
          = (Inr (Client 0, demo_tools), snd (getMCPClient demo_X demo_s0))"
    by (simp add: demo_connect)
  from getMCPClient_frame [OF this]
  have n: "next_addr (snd (getMCPClient demo_X demo_s0)) = 1" by (simp add: demo_s0_def)
  have sp: "snd (spread 0 (snd (getMCPClient demo_X demo_s0))) = demo_s1"
    by (simp add: demo_start)
  have post: "POST demo_bad_X 0 demo_s0 = tool_calling_loop demo_bad_X ?tss 1 demo_s1"
    using POST_connected [OF c, of 0] n sp by simp
  have b: "fst (loop_body demo_bad_X ?tss 1 demo_s1)
             = Throw (Error ''Unexpected end of JSON input'')"
    and h: "heap ?S 1 = [ChatMessage User ''list my services'',
               AssistantMessage bad_completion,
               ToolMessage ''call_1'' ''[S1]'']"
    and t: "length (chat_requests (trace ?S)) = 1"
    by (simp_all add: loop_body_def request_of_def demo_bad_X_def demo_X_def demo_s1_def
        Let_def bad_completion_def tool_call_body_def callMCPTool_def
        getMCPClient_def log_event_def push_def)
  from b have "loop_body demo_bad_X ?tss 1 demo_s1
                 = (Throw (Error ''Unexpected end of JSON input''), ?S)"
    by (metis prod.collapse)
  from loop_Throw [OF this] post
  have p: "POST demo_bad_X 0 demo_s0
             = Some (Inl (Error ''Unexpected end of JSON input''), ?S)" by simp
  show ?thesis
    unfolding p demo_bad_final_def using h t
    by (simp add: bad_completion_def)
qed

text \<open>
  Claim C2, at a failing input. The message of the model requests two tool calls. The
  invocation of the first raises an error, which the \<open>catch\<close> block turns into a tool
  message with the content \<open>Error: Unknown tool\<close>, and the loop continues with the second
  call. Its arguments are no JSON: \<open>JSON.parse\<close> stands before the \<open>try\<close>, so this error,
  which is local to one tool call as well, leaves the handler. The request is aborted
  with it after one invocation of the model; the loop does not reach the next one.
\<close>

theorem invalid_arguments_after_caught_error:
  "tool_calls raising_then_bad_completion
     = Some [ToolCall ''call_1'' ''get_incident'' ''{}'',
             ToolCall ''call_2'' ''list_services'' ''{limit:'']
   \<and> fst (callMCPTool demo_raise_bad_X ''get_incident'' ''{}'' demo_s1)
       = Inl (Error ''Unknown tool'')
   \<and> POST demo_raise_bad_X 0 demo_s0
       = Some (Inl (Error ''Unexpected end of JSON input''), demo_raise_bad_final)
   \<and> heap demo_raise_bad_final 1
       = [ChatMessage User ''list my services'',
          AssistantMessage raising_then_bad_completion,
          ToolMessage ''call_1'' ''Error: Unknown tool'']
   \<and> length (chat_requests (trace demo_raise_bad_final)) = 1"
proof -
  let ?tss = "toolSchemas_of demo_tools"
  let ?S = "snd (loop_body demo_raise_bad_X ?tss 1 demo_s1)"
  have c: "getMCPClient demo_raise_bad_X demo_s0
             = (Inr (Client 0, demo_tools), snd (getMCPClient demo_X demo_s0))"
    by (simp add: getMCPClient_def demo_raise_bad_X_def demo_X_def demo_s0_def demo_env_def
        URL_new_def Let_def)
  have "getMCPClient demo_X demo_s0
          = (Inr (Client 0, demo_tools), snd (getMCPClient demo_X demo_s0))"
    by (simp add: demo_connect)
  from getMCPClient_frame [OF this]
  have n: "next_addr (snd (getMCPClient demo_X demo_s0)) = 1" by (simp add: demo_s0_def)
  have sp: "snd (spread 0 (snd (getMCPClient demo_X demo_s0))) = demo_s1"
    by (simp add: demo_start)
  have post: "POST demo_raise_bad_X 0 demo_s0 = tool_calling_loop demo_raise_bad_X ?tss 1 demo_s1"
    using POST_connected [OF c, of 0] n sp by simp
  have b: "fst (loop_body demo_raise_bad_X ?tss 1 demo_s1)
             = Throw (Error ''Unexpected end of JSON input'')"
    and h: "heap ?S 1 = [ChatMessage User ''list my services'',
               AssistantMessage raising_then_bad_completion,
               ToolMessage ''call_1'' ''Error: Unknown tool'']"
    and t: "length (chat_requests (trace ?S)) = 1"
    by (simp_all add: loop_body_def request_of_def demo_raise_bad_X_def demo_X_def demo_s1_def
        Let_def raising_then_bad_completion_def tool_call_body_def callMCPTool_def
        getMCPClient_def log_event_def push_def)
  from b have "loop_body demo_raise_bad_X ?tss 1 demo_s1
                 = (Throw (Error ''Unexpected end of JSON input''), ?S)"
    by (metis prod.collapse)
  from loop_Throw [OF this] post
  have p: "POST demo_raise_bad_X 0 demo_s0
             = Some (Inl (Error ''Unexpected end of JSON input''), ?S)" by simp
  have r: "fst (callMCPTool demo_raise_bad_X ''get_incident'' ''{}'' demo_s1)
             = Inl (Error ''Unknown tool'')"
    by (simp add: callMCPTool_def getMCPClient_def demo_raise_bad_X_def demo_X_def demo_s1_def
        Let_def)
  show ?thesis
    unfolding p demo_raise_bad_final_def using h t r
    by (simp add: raising_then_bad_completion_def)
qed

text \<open>
  Claim C3. Let the registry client connect, and let the first answer of the model, to the
  history the caller supplied, hold no tool-call requests (the property absent, or an empty
  list). Then the handler returns the response \<open>{content: c}\<close>, where \<open>c\<close> is the content of
  that message, or \<open>No response.\<close> when the content is \<open>null\<close> or empty; and it has sent
  the model exactly one request, which carries the caller's history.
\<close>

theorem final_answer_in_one_round:
  assumes "getMCPClient X s = (Inr (c, ts), s1)"
    and "completions_create X
           \<lparr>model = OPENAI_MODEL (env s), messages = heap s a, tools = toolSchemas_of ts,
            tool_choice = ''auto'', temperature = 7 / 10\<rparr> (world s1) = (Inr (msg # others), w)"
    and "tool_calls msg = None \<or> tool_calls msg = Some []"
  shows "\<exists>s2. POST X a s =
                 Some (Inr (case content msg of
                              None \<Rightarrow> ''No response.''
                            | Some c \<Rightarrow> if c = [] then ''No response.'' else c), s2)
           \<and> chat_requests (trace s2) =
               chat_requests (trace s)
                 @ [\<lparr>model = OPENAI_MODEL (env s), messages = heap s a,
                     tools = toolSchemas_of ts, tool_choice = ''auto'', temperature = 7 / 10\<rparr>]"
proof -
  let ?cur = "next_addr s1"
  let ?s2 = "snd (spread a s1)"
  let ?tss = "toolSchemas_of ts"
  note fr = getMCPClient_frame [OF assms(1)]
  have req: "request_of ?tss ?cur ?s2 =
      \<lparr>model = OPENAI_MODEL (env s), messages = heap s a, tools = toolSchemas_of ts,
       tool_choice = ''auto'', temperature = 7 / 10\<rparr>"
    using fr by (simp add: request_of_def)
  have cc: "completions_create X (request_of ?tss ?cur ?s2) (world ?s2) = (Inr (msg # others), w)"
    using assms(2) req by simp
  let ?s3 = "push ?cur (AssistantMessage msg)
               ((log_event (ChatCompletion (request_of ?tss ?cur ?s2)) ?s2)\<lparr>world := w\<rparr>)"
  have body: "loop_body X ?tss ?cur ?s2 = (Break (content_or_sentinel msg), ?s3)"
    by (rule loop_body_final [OF cc assms(3)])
  have "tool_calling_loop X ?tss ?cur ?s2 = Some (Inr (content_or_sentinel msg), ?s3)"
    by (subst tool_calling_loop.simps) (simp add: body)
  then have post: "POST X a s = Some (Inr (content_or_sentinel msg), ?s3)"
    using POST_connected [OF assms(1), of a] by simp
  have "chat_requests (trace ?s3) = chat_requests (trace s) @ [request_of ?tss ?cur ?s2]"
    using fr by simp
  with post req show ?thesis
    by (simp add: content_or_sentinel_def)
qed

theorem final_answer_in_one_round_witness:
  "fst (getMCPClient demo_X (demo_s0\<lparr>world := 1\<rparr>)) = Inr (Client 0, demo_tools)
   \<and> tool_calls second_completion = None
   \<and> (\<exists>s2. POST demo_X 0 (demo_s0\<lparr>world := 1\<rparr>) = Some (Inr ''You have 1 service: S1.'', s2)
          \<and> length (chat_requests (trace s2)) = 1)"
proof -
  let ?s = "demo_s0\<lparr>world := 1\<rparr>"
  have f1: "fst (getMCPClient demo_X ?s) = Inr (Client 0, demo_tools)"
    by (simp add: getMCPClient_def demo_X_def demo_s0_def demo_env_def URL_new_def Let_def)
  then have h1: "getMCPClient demo_X ?s
                   = (Inr (Client 0, demo_tools), snd (getMCPClient demo_X ?s))"
    by (metis prod.collapse)
  have w: "world (snd (getMCPClient demo_X ?s)) = 1"
    by (simp add: getMCPClient_def demo_X_def demo_s0_def demo_env_def URL_new_def Let_def)
  have h2: "completions_create demo_X
           \<lparr>model = OPENAI_MODEL (env ?s), messages = heap ?s 0, tools = toolSchemas_of demo_tools,
            tool_choice = ''auto'', temperature = 7 / 10\<rparr> (world (snd (getMCPClient demo_X ?s)))
            = (Inr (second_completion # []), 2)"
    unfolding w by (simp add: demo_X_def)
  have h3: "tool_calls second_completion = None \<or> tool_calls second_completion = Some []"
    by (simp add: second_completion_def)
  have tr: "trace ?s = []" by (simp add: demo_s0_def)
  from final_answer_in_one_round [OF h1 h2 h3] f1 tr show ?thesis
    by (auto simp: second_completion_def)
qed

text \<open>
  Claim C4, at a failing input. The tool provider cannot be reached when \<open>getMCPClient\<close> is
  first called, so \<open>connect\<close> rejects and the call throws. \<open>mcpClient\<close> was assigned before
  the \<open>await\<close>, and stays assigned. The provider can be reached from then on, yet the
  second call makes no attempt: it returns the client that never connected, with the empty
  tool list, as a success.
\<close>

theorem failed_connect_is_cached:
  "getMCPClient unreachable_once_X demo_s0 = (Inl (Error ''fetch failed''), demo_poisoned)
   \<and> client_connect unreachable_once_X (Client 0) ''http://localhost:8000/mcp''
        (world demo_poisoned) = (Inr (), 2)
   \<and> getMCPClient unreachable_once_X demo_poisoned = (Inr (Client 0, []), demo_poisoned)"
  by (simp add: getMCPClient_def unreachable_once_X_def demo_X_def demo_s0_def demo_env_def
      demo_poisoned_def URL_new_def Let_def log_event_def)

text \<open>
  Claim C5. Once a call of \<open>getMCPClient\<close> has succeeded with a client and a tool list, the
  next call returns the same client and tool list and leaves the process as it is, the
  outside world and the record of calls included: nothing is connected and no tool list is
  fetched. So does every later call, as long as the two module variables hold what that
  call left in them; and they do after a whole request.
\<close>

theorem connect_idempotent:
  assumes "getMCPClient X s = (Inr (c, ts), s1)"
  shows "getMCPClient X s1 = (Inr (c, ts), s1)
         \<and> (\<forall>s2. mcpClient s2 = mcpClient s1 \<and> registry_tools s2 = registry_tools s1
                \<longrightarrow> getMCPClient X s2 = (Inr (c, ts), s2))
         \<and> (\<forall>a r s2. POST X a s1 = Some (r, s2) \<longrightarrow> getMCPClient X s2 = (Inr (c, ts), s2))"
proof -
  note reg = getMCPClient_Inr [OF assms]
  have gen: "getMCPClient X s2 = (Inr (c, ts), s2)"
    if "mcpClient s2 = mcpClient s1 \<and> registry_tools s2 = registry_tools s1" for s2
    using reg that by (simp add: getMCPClient_cached)
  have "getMCPClient X s2 = (Inr (c, ts), s2)" if "POST X a s1 = Some (r, s2)" for a r s2
    using POST_keeps [OF that] reg by (intro gen) simp
  with gen show ?thesis by blast
qed

theorem connect_idempotent_witness:
  "fst (getMCPClient demo_X demo_s0) = Inr (Client 0, demo_tools)
   \<and> getMCPClient demo_X (snd (getMCPClient demo_X demo_s0))
       = (Inr (Client 0, demo_tools), snd (getMCPClient demo_X demo_s0))
   \<and> mcpClient demo_s1 = mcpClient (snd (getMCPClient demo_X demo_s0))
   \<and> registry_tools demo_s1 = registry_tools (snd (getMCPClient demo_X demo_s0))
   \<and> getMCPClient demo_X demo_s1 = (Inr (Client 0, demo_tools), demo_s1)"
proof -
  have f: "fst (getMCPClient demo_X demo_s0) = Inr (Client 0, demo_tools)"
    by (simp add: demo_connect)
  then have h: "getMCPClient demo_X demo_s0
                  = (Inr (Client 0, demo_tools), snd (getMCPClient demo_X demo_s0))"
    by (metis prod.collapse)
  have a: "mcpClient demo_s1 = mcpClient (snd (getMCPClient demo_X demo_s0))"
    and b: "registry_tools demo_s1 = registry_tools (snd (getMCPClient demo_X demo_s0))"
    by (simp_all add: demo_connect demo_s1_def)
  from connect_idempotent [OF h] a b f show ?thesis by blast
qed




text \<open>
  Claim C7, as stated, fails for a submit of white space: \<open>sendMessage\<close> returns at its
  guard, no message is appended and no request is sent.
\<close>

theorem blank_submit_does_nothing:
  "input blank_page = [0x0020, 0x00A0, 0x0009] \<and> \<not> isLoading blank_page
   \<and> sendMessage blank_page = blank_page
   \<and> messages (sendMessage blank_page) = [] \<and> fetches (sendMessage blank_page) = []"
  by (simp add: sendMessage_def blank_page_def trim_def is_space_def)

text \<open>
  Claim C7, amended. A submit changes nothing and sends nothing when the input is blank,
  that is, when each of its code units is white space for \<open>trim\<close>, or when a request is
  in flight. On every other submit the page appends the user message, sends one request
  whose body is the history before plus that message, and is loading. Until the request
  ends, whatever is typed or submitted changes neither the history nor the requests sent.
  When the request ends, the page appends one assistant message, the answer or the fixed
  error text, and is no longer loading; the user message is still in the history.
\<close>

theorem submit_round_trip:
  "((\<forall>c\<in>set (input st). is_space c) \<or> isLoading st \<longrightarrow> sendMessage st = st)
   \<and> ((\<exists>c\<in>set (input st). \<not> is_space c) \<and> \<not> isLoading st \<longrightarrow>
         messages (sendMessage st) = messages st @ [Message User (input st)]
         \<and> fetches (sendMessage st) = fetches st @ [messages st @ [Message User (input st)]]
         \<and> isLoading (sendMessage st)
         \<and> messages (foldl ui_step (sendMessage st) evs) = messages (sendMessage st)
         \<and> fetches (foldl ui_step (sendMessage st) evs) = fetches (sendMessage st)
         \<and> isLoading (foldl ui_step (sendMessage st) evs)
         \<and> messages (sendMessage_settled r (foldl ui_step (sendMessage st) evs))
             = messages st
                 @ [Message User (input st),
                    Message Assistant (case r of Json c \<Rightarrow> c | _ \<Rightarrow> error_text)]
         \<and> fetches (sendMessage_settled r (foldl ui_step (sendMessage st) evs))
             = fetches st @ [messages st @ [Message User (input st)]]
         \<and> \<not> isLoading (sendMessage_settled r (foldl ui_step (sendMessage st) evs)))"
proof (rule conjI; rule impI)
  assume "(\<forall>c\<in>set (input st). is_space c) \<or> isLoading st"
  then show "sendMessage st = st" by (auto simp: sendMessage_def trim_empty_iff)
next
  assume a: "(\<exists>c\<in>set (input st). \<not> is_space c) \<and> \<not> isLoading st"
  then have g: "trim (input st) \<noteq> []" "\<not> isLoading st" by (auto simp: trim_empty_iff)
  have s: "messages (sendMessage st) = messages st @ [Message User (input st)]"
    "fetches (sendMessage st) = fetches st @ [messages st @ [Message User (input st)]]"
    "isLoading (sendMessage st)"
    using g by (simp_all add: sendMessage_def Let_def)
  note w = while_loading [OF s(3), of evs]
  have "messages (sendMessage_settled r st') =
          messages st' @ [Message Assistant (case r of Json c \<Rightarrow> c | _ \<Rightarrow> error_text)]
        \<and> fetches (sendMessage_settled r st') = fetches st'
        \<and> \<not> isLoading (sendMessage_settled r st')" for st'
    by (cases r) (simp_all add: sendMessage_settled_def)
  with s w show "messages (sendMessage st) = messages st @ [Message User (input st)]
         \<and> fetches (sendMessage st) = fetches st @ [messages st @ [Message User (input st)]]
         \<and> isLoading (sendMessage st)
         \<and> messages (foldl ui_step (sendMessage st) evs) = messages (sendMessage st)
         \<and> fetches (foldl ui_step (sendMessage st) evs) = fetches (sendMessage st)
         \<and> isLoading (foldl ui_step (sendMessage st) evs)
         \<and> messages (sendMessage_settled r (foldl ui_step (sendMessage st) evs))
             = messages st
                 @ [Message User (input st),
                    Message Assistant (case r of Json c \<Rightarrow> c | _ \<Rightarrow> error_text)]
         \<and> fetches (sendMessage_settled r (foldl ui_step (sendMessage st) evs))
             = fetches st @ [messages st @ [Message User (input st)]]
         \<and> \<not> isLoading (sendMessage_settled r (foldl ui_step (sendMessage st) evs))"
    by simp
qed

theorem submit_round_trip_witness:
  "(\<exists>c\<in>set (input hello_page). \<not> is_space c) \<and> \<not> isLoading hello_page
   \<and> fetches (sendMessage hello_page) = [[Message User (ascii ''hello'')]]
   \<and> messages (foldl ui_step (sendMessage hello_page) [Submit, Change (ascii ''again''), Submit])
       = [Message User (ascii ''hello'')]
   \<and> fetches (foldl ui_step (sendMessage hello_page) [Submit, Change (ascii ''again''), Submit])
       = [[Message User (ascii ''hello'')]]
   \<and> messages (sendMessage_settled (Json (ascii ''Hi!''))
        (foldl ui_step (sendMessage hello_page) [Submit, Change (ascii ''again''), Submit]))
       = [Message User (ascii ''hello''), Message Assistant (ascii ''Hi!'')]
   \<and> messages (sendMessage_settled FetchRejected (sendMessage hello_page))
       = [Message User (ascii ''hello''), Message Assistant error_text]
   \<and> is_space 0x00A0
   \<and> sendMessage (hello_page\<lparr>input := [0x00A0]\<rparr>) = hello_page\<lparr>input := [0x00A0]\<rparr>"
proof -
  have h: "(\<exists>c\<in>set (input hello_page). \<not> is_space c) \<and> \<not> isLoading hello_page"
    by (simp add: hello_page_def ascii_def is_space_def)
  have f: "messages hello_page = []" "fetches hello_page = []"
    "input hello_page = ascii ''hello''"
    by (simp_all add: hello_page_def)
  have b: "\<forall>c\<in>set (input (hello_page\<lparr>input := [0x00A0]\<rparr>)). is_space c"
    by (simp add: is_space_def)
  from submit_round_trip [of hello_page "[Submit, Change (ascii ''again''), Submit]"
      "Json (ascii ''Hi!'')"]
    submit_round_trip [of hello_page "[]" FetchRejected]
    submit_round_trip [of "hello_page\<lparr>input := [0x00A0]\<rparr>"] h f b
  show ?thesis by (simp add: is_space_def)
qed





text \<open>
  Claim C9. A request leaves every array that existed before it as it was, the array of
  the caller among them: at its end, and after every pass of its loop. And what a request
  returns depends on the entries of the caller's array, the environment, the registry
  variables and the outside world alone: two processes that offer the same inputs, however
  their stores and their records of calls differ (as after an earlier request with the same
  history), both run forever or both return, with the same response, the same calls made
  during the request, and the same outside world and registry at the end.
\<close>

theorem requests_are_independent:
  "(a < next_addr s \<longrightarrow>
      (\<forall>r s1. POST X a s = Some (r, s1) \<longrightarrow>
         heap s1 a = heap s a \<and> (\<forall>b<next_addr s. heap s1 b = heap s b))
      \<and> (\<forall>c ts s0 n sn.
           getMCPClient X s = (Inr (c, ts), s0)
           \<and> after_rounds n X (toolSchemas_of ts) (next_addr s0) (snd (spread a s0)) = Some sn
           \<longrightarrow> heap sn a = heap s a \<and> (\<forall>b<next_addr s. heap sn b = heap s b)))
   \<and> (same_inputs a s b t \<longrightarrow>
        (POST X a s = None \<longleftrightarrow> POST X b t = None)
        \<and> (\<forall>r s1. POST X a s = Some (r, s1) \<longrightarrow>
              (\<exists>t1 evs. POST X b t = Some (r, t1) \<and> world t1 = world s1
                 \<and> mcpClient t1 = mcpClient s1 \<and> registry_tools t1 = registry_tools s1
                 \<and> trace s1 = trace s @ evs \<and> trace t1 = trace t @ evs)))"
proof -
  have one: "\<forall>r s1. POST X a s = Some (r, s1) \<longrightarrow>
         heap s1 a = heap s a \<and> (\<forall>b<next_addr s. heap s1 b = heap s b)"
    if "a < next_addr s"
    using POST_keeps [of X a s] that by blast
  have two: "\<forall>c ts s0 n sn.
           getMCPClient X s = (Inr (c, ts), s0)
           \<and> after_rounds n X (toolSchemas_of ts) (next_addr s0) (snd (spread a s0)) = Some sn
           \<longrightarrow> heap sn a = heap s a \<and> (\<forall>b<next_addr s. heap sn b = heap s b)"
    if "a < next_addr s"
    using POST_rounds_keep [of X s _ _ _ _ a] that by blast
  have three: "POST X a s = None \<longleftrightarrow> POST X b t = None" if st: "same_inputs a s b t"
  proof
    assume n: "POST X a s = None"
    show "POST X b t = None"
    proof (rule ccontr)
      assume "POST X b t \<noteq> None"
      then obtain r t1 where "POST X b t = Some (r, t1)" by auto
      from POST_same [OF same_inputs_sym [OF st] this] n show False by auto
    qed
  next
    assume n: "POST X b t = None"
    show "POST X a s = None"
    proof (rule ccontr)
      assume "POST X a s \<noteq> None"
      then obtain r s1 where "POST X a s = Some (r, s1)" by auto
      from POST_same [OF st this] n show False by auto
    qed
  qed
  have four: "\<forall>r s1. POST X a s = Some (r, s1) \<longrightarrow>
              (\<exists>t1 evs. POST X b t = Some (r, t1) \<and> world t1 = world s1
                 \<and> mcpClient t1 = mcpClient s1 \<and> registry_tools t1 = registry_tools s1
                 \<and> trace s1 = trace s @ evs \<and> trace t1 = trace t @ evs)"
    if st: "same_inputs a s b t"
    using POST_same [OF st] by blast
  from one two three four show ?thesis by blast
qed

theorem requests_are_independent_witness:
  "(0::nat) < next_addr demo_s0
   \<and> POST demo_X 0 demo_s0 = Some (Inr ''You have 1 service: S1.'', demo_final)
   \<and> heap demo_final 0 = [ChatMessage User ''list my services'']
   \<and> same_inputs 0 demo_s0 0 demo_again
   \<and> (\<exists>t1. POST demo_X 0 demo_again = Some (Inr ''You have 1 service: S1.'', t1)
          \<and> world t1 = world demo_final)"
proof -
  note ind = requests_are_independent [of 0 demo_s0 demo_X 0 demo_again]
  have a: "(0::nat) < next_addr demo_s0" by (simp add: demo_s0_def)
  from ind a demo_POST have h: "heap demo_final 0 = heap demo_s0 0" by blast
  from POST_keeps [OF demo_POST] have e: "env demo_final = env demo_s0" by simp
  have st: "same_inputs 0 demo_s0 0 demo_again"
    using h e by (simp add: same_inputs_def demo_again_def demo_s0_def)
  from ind st demo_POST
  have "\<exists>t1. POST demo_X 0 demo_again = Some (Inr ''You have 1 service: S1.'', t1)
          \<and> world t1 = world demo_final" by blast
  with a demo_POST h st show ?thesis by (simp add: demo_s0_def)
qed

text \<open>
  Claim C10. In any pass of the loop of a request, let the message of the model request the
  tool calls \<open>pre @ tc # rest\<close>, where the arguments of the calls in \<open>pre\<close> parse and those
  of \<open>tc\<close> do not. Then the request throws the error of \<open>JSON.parse\<close>: the history has
  received the tool messages for \<open>pre\<close> and none for \<open>tc\<close>, the calls in \<open>rest\<close> are not
  made, and the model is not invoked again.
\<close>

theorem invalid_arguments_abort_request:
  assumes "getMCPClient X s0 = (Inr (c, ts), s1)"
    and "after_rounds n X (toolSchemas_of ts) (next_addr s1) (snd (spread a s1)) = Some s"
    and "completions_create X (request_of (toolSchemas_of ts) (next_addr s1) s) (world s)
           = (Inr (msg # others), w)"
    and "tool_calls msg = Some (pre @ tc # rest)"
    and "\<forall>t\<in>set pre. \<exists>args. JSON_parse X (fn_arguments t) = Inr args"
    and "JSON_parse X (fn_arguments tc) = Inl e"
  shows "\<exists>s2 cs. POST X a s0 = Some (Inl e, s2)
           \<and> length cs = length pre
           \<and> heap s2 (next_addr s1) =
               heap s (next_addr s1) @ [AssistantMessage msg] @ tool_messages pre cs
           \<and> chat_requests (trace s2)
               = chat_requests (trace s) @ [request_of (toolSchemas_of ts) (next_addr s1) s]"
proof -
  from pass_throws_on_invalid_arguments [OF assms(3-6)] obtain s3 cs where
    h: "loop_body X (toolSchemas_of ts) (next_addr s1) s = (Throw e, s3)"
       "length cs = length pre"
       "heap s3 (next_addr s1) =
          heap s (next_addr s1) @ [AssistantMessage msg] @ tool_messages pre cs"
       "chat_requests (trace s3)
          = chat_requests (trace s) @ [request_of (toolSchemas_of ts) (next_addr s1) s]"
    by blast
  from loop_Throw [OF h(1)] after_rounds_loop [OF assms(2)] POST_connected [OF assms(1), of a]
  have "POST X a s0 = Some (Inl e, s3)" by simp
  with h(2-4) show ?thesis by blast
qed

theorem invalid_arguments_abort_request_witness:
  "fst (getMCPClient demo_bad_X demo_s0) = Inr (Client 0, demo_tools)
   \<and> tool_calls bad_completion
       = Some ([ToolCall ''call_1'' ''list_services'' ''{}'']
               @ ToolCall ''call_2'' ''list_services'' ''{limit:'' # [])
   \<and> JSON_parse demo_bad_X ''{}'' = Inr ''{}''
   \<and> JSON_parse demo_bad_X ''{limit:'' = Inl (Error ''Unexpected end of JSON input'')
   \<and> (\<exists>s2 c. POST demo_bad_X 0 demo_s0 = Some (Inl (Error ''Unexpected end of JSON input''), s2)
          \<and> heap s2 1 =
              [ChatMessage User ''list my services'', AssistantMessage bad_completion,
               ToolMessage ''call_1'' c])"
proof -
  let ?s1 = "snd (getMCPClient demo_bad_X demo_s0)"
  let ?s = "snd (spread 0 ?s1)"
  let ?tc = "ToolCall ''call_2'' ''list_services'' ''{limit:''"
  have f: "fst (getMCPClient demo_bad_X demo_s0) = Inr (Client 0, demo_tools)"
    and n: "next_addr ?s1 = 1" and hp: "heap ?s1 0 = [ChatMessage User ''list my services'']"
    and w: "world ?s1 = 0"
    by (simp_all add: getMCPClient_def demo_bad_X_def demo_X_def demo_s0_def demo_env_def
        URL_new_def Let_def)
  from f have h1: "getMCPClient demo_bad_X demo_s0 = (Inr (Client 0, demo_tools), ?s1)"
    by (metis prod.collapse)
  have h2: "after_rounds 0 demo_bad_X (toolSchemas_of demo_tools) (next_addr ?s1) ?s = Some ?s"
    by simp
  have h3: "completions_create demo_bad_X
              (request_of (toolSchemas_of demo_tools) (next_addr ?s1) ?s) (world ?s)
              = (Inr (bad_completion # []), 1)"
    using w by (simp add: demo_bad_X_def)
  have h4: "tool_calls bad_completion
              = Some ([ToolCall ''call_1'' ''list_services'' ''{}''] @ ?tc # [])"
    by (simp add: bad_completion_def)
  have p1: "JSON_parse demo_bad_X ''{}'' = Inr ''{}''"
    by (simp add: demo_bad_X_def demo_X_def)
  then have h5: "\<forall>t\<in>set [ToolCall ''call_1'' ''list_services'' ''{}''].
                  \<exists>args. JSON_parse demo_bad_X (fn_arguments t) = Inr args" by simp
  have p2: "JSON_parse demo_bad_X ''{limit:'' = Inl (Error ''Unexpected end of JSON input'')"
    by (simp add: demo_bad_X_def demo_X_def)
  then have h6: "JSON_parse demo_bad_X (fn_arguments ?tc)
              = Inl (Error ''Unexpected end of JSON input'')" by simp
  from invalid_arguments_abort_request [OF h1 h2 h3 h4 h5 h6] obtain s2 cs where
    r: "POST demo_bad_X 0 demo_s0 = Some (Inl (Error ''Unexpected end of JSON input''), s2)"
       "length cs = 1"
       "heap s2 (next_addr ?s1) = heap ?s (next_addr ?s1) @ [AssistantMessage bad_completion]
          @ tool_messages [ToolCall ''call_1'' ''list_services'' ''{}''] cs"
    by auto
  from r(2) obtain c where "cs = [c]" by (cases cs) auto
  with r n hp have "heap s2 1 =
      [ChatMessage User ''list my services'', AssistantMessage bad_completion,
       ToolMessage ''call_1'' c]" by simp
  with r(1) f h4 p1 p2 show ?thesis by blast
qed

end
